theory Spec2Isabelle
  imports Complex_Main "HOL-Library.Word"
begin

section \<open>TRICAL: calibration state and its public operations\<close>

text \<open>
  The C code computes on single-precision floats. The cells of the instance and of the
  matrices hold real numbers in the embedding, and a call that would store an infinity or
  a NaN in a cell ends in an error value instead.

  The arithmetic of \<^verbatim>\<open>TRICAL_norm_set\<close> is embedded in single precision: every
  subtraction, division and multiplication rounds to IEEE binary32, to nearest with ties
  to even, with gradual underflow and with overflow to infinity. Its early return and the
  finiteness of what it stores depend on that. A second function, \<open>TRICAL_norm_set_real\<close>,
  is the same code over real arithmetic, where every operation is exact; the properties
  stated of it are properties of the idealisation, and say so.

  The matrix kernel and the update cycle are embedded over real arithmetic only: every
  operation is exact, and the two operations that leave the real numbers in IEEE
  arithmetic (division by zero, square root of a negative number) are error values.
  Unsigned counters are 32-bit words. Every function asserts that its instance pointer is
  not null; the model passes the instance by value, so the null instance is not among its
  inputs.
\<close>

datatype error =
    Assertion_failed  \<comment> \<open>an \<^verbatim>\<open>assert\<close> of the source does not hold\<close>
  | Not_finite        \<comment> \<open>an infinity or a NaN: division by zero, square root of a
                          negative number, overflow, zero times infinity\<close>

subsection \<open>The instance record (TRICAL.h)\<close>

text \<open>
  Modelled from the spec: the header TRICAL.h, which declares
  \<^verbatim>\<open>TRICAL_instance_t\<close> and \<^verbatim>\<open>TRICAL_STATE_DIM\<close>, is absent. The fields
  are the ones TRICAL.c reads and writes; the dimension 9 is the one of section 3 of the
  specification and of the \<^verbatim>\<open>MUST_ITERATE(9, 9)\<close> pragma.
\<close>

abbreviation TRICAL_STATE_DIM :: nat where
  "TRICAL_STATE_DIM \<equiv> 9"

record TRICAL_instance =
  field_norm :: real
  measurement_noise :: real
  state :: "real list"
  state_covariance :: "real list"
  measurement_count :: "32 word"

text \<open>The C arrays have a fixed extent: 9 floats and 81 floats.\<close>

definition wf_instance :: "TRICAL_instance \<Rightarrow> bool" where
  "wf_instance inst \<longleftrightarrow>
     length (state inst) = TRICAL_STATE_DIM \<and>
     length (state_covariance inst) = TRICAL_STATE_DIM * TRICAL_STATE_DIM"

text \<open>\<^verbatim>\<open>FLT_EPSILON\<close> of float.h for IEEE single precision.\<close>

definition FLT_EPSILON :: real where
  "FLT_EPSILON = 1 / 2 ^ 23"

subsection \<open>TRICAL_init\<close>

text \<open>\<^verbatim>\<open>memset(instance, 0, sizeof(TRICAL_instance_t))\<close>: every field is all-zero bits.\<close>

definition memset_zero :: TRICAL_instance where
  "memset_zero =
     \<lparr> field_norm = 0, measurement_noise = 0,
       state = replicate TRICAL_STATE_DIM 0,
       state_covariance = replicate (TRICAL_STATE_DIM * TRICAL_STATE_DIM) 0,
       measurement_count = 0 \<rparr>"

text \<open>
  \<^verbatim>\<open>for (i = 0; i < TRICAL_STATE_DIM * TRICAL_STATE_DIM; i += 10)
      instance->state_covariance[i] = 1e-2f;\<close>
\<close>

function init_cov_loop :: "nat \<Rightarrow> real list \<Rightarrow> real list" where
  "init_cov_loop i cov =
     (if i < TRICAL_STATE_DIM * TRICAL_STATE_DIM
      then init_cov_loop (i + 10) (cov[i := 1 / 100])
      else cov)"
  by pat_completeness auto
termination
  by (relation "measure (\<lambda>(i, cov). 81 - i)") auto

declare init_cov_loop.simps [simp del]

definition TRICAL_init :: "TRICAL_instance \<Rightarrow> TRICAL_instance" where
  "TRICAL_init inst =
     (let z = memset_zero;
          z1 = z\<lparr>field_norm := 1\<rparr>;
          z2 = z1\<lparr>measurement_noise := 1 / 1000000\<rparr>
      in z2\<lparr>state_covariance := init_cov_loop 0 (state_covariance z2)\<rparr>)"

subsection \<open>Single-precision arithmetic\<close>

text \<open>
  \<^verbatim>\<open>TRICAL_norm_set\<close> subtracts, divides and multiplies floats, and what it does depends
  on how those operations round and overflow. A float expression has a value that is a
  finite real, an infinity (the sign is not tracked: it never decides what the function
  does) or a NaN. The instance itself holds reals; a call that would store an infinity
  or a NaN in it ends in the error \<open>Not_finite\<close>.
\<close>

datatype float_value = Finite real | Infinity | NaN

text \<open>
  Rounding to IEEE binary32, to nearest with ties to even, which is what every
  arithmetic operation on \<^verbatim>\<open>float\<close> does to its exact result when float expressions
  are evaluated in single precision. The exponent of \<open>x\<close> is searched upwards from that of
  the subnormal numbers, \<open>-126\<close>, to that of the largest binade, \<open>127\<close>; the spacing of
  floats there is \<open>2\<close> to the exponent minus 23; a result of magnitude \<open>2 ^ 128\<close> has
  overflowed.
\<close>

fun search_exponent :: "nat \<Rightarrow> int \<Rightarrow> real \<Rightarrow> int" where
  "search_exponent 0 e a = e"
| "search_exponent (Suc n) e a =
     (if 2 powi (e + 1) \<le> a then search_exponent n (e + 1) a else e)"

definition float_exponent :: "real \<Rightarrow> int" where
  "float_exponent x = search_exponent 253 (- 126) \<bar>x\<bar>"

definition round_half_even :: "real \<Rightarrow> int" where
  "round_half_even m =
     (let f = \<lfloor>m\<rfloor>; r = m - of_int f in
      if r < 1 / 2 then f else if 1 / 2 < r then f + 1 else if even f then f else f + 1)"

definition float_round :: "real \<Rightarrow> float_value" where
  "float_round x =
     (let u = 2 powi (float_exponent x - 23);
          y = of_int (round_half_even (x / u)) * u
      in if 2 powi 128 \<le> \<bar>y\<bar> then Infinity else Finite y)"

text \<open>The idealisation: every operation delivers its exact result.\<close>

definition exact :: "real \<Rightarrow> float_value" where
  "exact x = Finite x"

text \<open>
  Multiplication and division of float expressions, for a rounding \<open>rnd\<close> of the exact
  result: the IEEE rules for infinities, NaNs and a zero divisor.
\<close>

fun float_mul :: "(real \<Rightarrow> float_value) \<Rightarrow> float_value \<Rightarrow> float_value \<Rightarrow> float_value" where
  "float_mul rnd (Finite a) (Finite b) = rnd (a * b)"
| "float_mul rnd NaN y = NaN"
| "float_mul rnd x NaN = NaN"
| "float_mul rnd (Finite a) Infinity = (if a = 0 then NaN else Infinity)"
| "float_mul rnd Infinity (Finite b) = (if b = 0 then NaN else Infinity)"
| "float_mul rnd Infinity Infinity = Infinity"

fun float_div :: "(real \<Rightarrow> float_value) \<Rightarrow> float_value \<Rightarrow> float_value \<Rightarrow> float_value" where
  "float_div rnd (Finite a) (Finite b) =
     (if b = 0 then (if a = 0 then NaN else Infinity) else rnd (a / b))"
| "float_div rnd NaN y = NaN"
| "float_div rnd x NaN = NaN"
| "float_div rnd (Finite a) Infinity = Finite 0"
| "float_div rnd Infinity (Finite b) = Infinity"
| "float_div rnd Infinity Infinity = NaN"

text \<open>Storing the value of a float expression in a cell of the instance.\<close>

definition finite_value :: "float_value \<Rightarrow> error + real" where
  "finite_value v = (case v of Finite a \<Rightarrow> Inr a | Infinity \<Rightarrow> Inl Not_finite | NaN \<Rightarrow> Inl Not_finite)"

subsection \<open>TRICAL_norm_set and the other configuration accessors\<close>

text \<open>
  Both loops of \<^verbatim>\<open>TRICAL_norm_set\<close> have the shape
  \<^verbatim>\<open>for (i = 0; i < n; i++) xs[i] *= scale;\<close>
\<close>

function scale_loop ::
  "(real \<Rightarrow> float_value) \<Rightarrow> nat \<Rightarrow> nat \<Rightarrow> float_value \<Rightarrow> real list \<Rightarrow> error + real list" where
  "scale_loop rnd i n scale xs =
     (if i < n then
        case finite_value (float_mul rnd (Finite (xs ! i)) scale) of
          Inl e \<Rightarrow> Inl e
        | Inr v \<Rightarrow> scale_loop rnd (i + 1) n scale (xs[i := v])
      else Inr xs)"
  by pat_completeness auto
termination
  by (relation "measure (\<lambda>(rnd, i, n, scale, xs). n - i)") auto

declare scale_loop.simps [simp del]

text \<open>
  The body of \<^verbatim>\<open>TRICAL_norm_set\<close>, for a rounding \<open>rnd\<close> of every arithmetic result.
  The early return compares the computed difference, \<^verbatim>\<open>fabs(norm - field_norm)\<close>, with
  \<^verbatim>\<open>FLT_EPSILON\<close>; an infinite or NaN difference is not below it. Past the early
  return, \<^verbatim>\<open>scale\<close> is first \<^verbatim>\<open>norm / field_norm\<close> and then
  \<^verbatim>\<open>(norm * norm) / (field_norm * field_norm)\<close>.
\<close>

definition norm_set_with ::
  "(real \<Rightarrow> float_value) \<Rightarrow> TRICAL_instance \<Rightarrow> real \<Rightarrow> error + TRICAL_instance" where
  "norm_set_with rnd inst nrm =
     (if \<not> nrm > 0 then Inl Assertion_failed
      else if (case rnd (nrm - field_norm inst) of
                 Finite d \<Rightarrow> \<bar>d\<bar> < FLT_EPSILON | Infinity \<Rightarrow> False | NaN \<Rightarrow> False)
      then Inr inst
      else
        let scale = float_div rnd (Finite nrm) (Finite (field_norm inst)) in
        case scale_loop rnd 0 TRICAL_STATE_DIM scale (state inst) of
          Inl e \<Rightarrow> Inl e
        | Inr st \<Rightarrow>
            let scale = float_div rnd (float_mul rnd (Finite nrm) (Finite nrm))
                          (float_mul rnd (Finite (field_norm inst)) (Finite (field_norm inst)))
            in case scale_loop rnd 0 (TRICAL_STATE_DIM * TRICAL_STATE_DIM) scale
                      (state_covariance inst) of
                 Inl e \<Rightarrow> Inl e
               | Inr cov \<Rightarrow>
                   Inr (inst\<lparr>state := st, state_covariance := cov, field_norm := nrm\<rparr>))"

text \<open>
  The function as the program runs it, in single precision, and its reading over real
  arithmetic, in which no operation rounds, overflows or underflows.
\<close>

definition TRICAL_norm_set :: "TRICAL_instance \<Rightarrow> real \<Rightarrow> error + TRICAL_instance" where
  "TRICAL_norm_set inst nrm = norm_set_with float_round inst nrm"

definition TRICAL_norm_set_real :: "TRICAL_instance \<Rightarrow> real \<Rightarrow> error + TRICAL_instance" where
  "TRICAL_norm_set_real inst nrm = norm_set_with exact inst nrm"

text \<open>
  The accessors that only read return the value read together with the instance as
  the call leaves it, so that what a call does to the instance is part of its result.
\<close>

definition TRICAL_norm_get :: "TRICAL_instance \<Rightarrow> real \<times> TRICAL_instance" where
  "TRICAL_norm_get inst = (field_norm inst, inst)"

definition TRICAL_noise_set :: "TRICAL_instance \<Rightarrow> real \<Rightarrow> error + TRICAL_instance" where
  "TRICAL_noise_set inst noise =
     (if \<not> noise > 0 then Inl Assertion_failed
      else Inr (inst\<lparr>measurement_noise := noise\<rparr>))"

definition TRICAL_noise_get :: "TRICAL_instance \<Rightarrow> real \<times> TRICAL_instance" where
  "TRICAL_noise_get inst = (measurement_noise inst, inst)"

definition TRICAL_measurement_count_get :: "TRICAL_instance \<Rightarrow> 32 word \<times> TRICAL_instance" where
  "TRICAL_measurement_count_get inst = (measurement_count inst, inst)"

subsection \<open>TRICAL_estimate_get and TRICAL_estimate_get_ext\<close>

text \<open>
  The output buffers are passed in with their current contents and returned as the call
  leaves them. The assertions of the source on pointers (non-null, pairwise different)
  constrain where the caller's buffers lie; the model passes every buffer as a value
  of its own, which is the situation those assertions ask for.

  \<^verbatim>\<open>memcpy(bias_estimate, instance->state, 3 * sizeof(float))\<close> overwrites the
  first three floats of the destination.
\<close>

definition TRICAL_estimate_get ::
  "TRICAL_instance \<Rightarrow> real list \<Rightarrow> real list \<Rightarrow> (real list \<times> real list) \<times> TRICAL_instance" where
  "TRICAL_estimate_get inst bias_estimate scale_estimate =
     (let bias_estimate = take 3 (state inst) @ drop 3 bias_estimate;
          scale_estimate = scale_estimate[0 := state inst ! 3];
          scale_estimate = scale_estimate[1 := state inst ! 4];
          scale_estimate = scale_estimate[2 := state inst ! 5];
          scale_estimate = scale_estimate[3 := state inst ! 4];
          scale_estimate = scale_estimate[4 := state inst ! 6];
          scale_estimate = scale_estimate[5 := state inst ! 7];
          scale_estimate = scale_estimate[6 := state inst ! 5];
          scale_estimate = scale_estimate[7 := state inst ! 7];
          scale_estimate = scale_estimate[8 := state inst ! 8]
      in ((bias_estimate, scale_estimate), inst))"

definition TRICAL_estimate_get_ext ::
  "TRICAL_instance \<Rightarrow> real list \<Rightarrow> real list \<Rightarrow> real list \<Rightarrow> real list \<Rightarrow>
     (real list \<times> real list \<times> real list \<times> real list) \<times> TRICAL_instance" where
  "TRICAL_estimate_get_ext inst bias_estimate scale_estimate
       bias_estimate_variance scale_estimate_variance =
     (case TRICAL_estimate_get inst bias_estimate scale_estimate of
        ((bias_estimate, scale_estimate), inst) \<Rightarrow>
          let bv = bias_estimate_variance[0 := state_covariance inst ! (0 * 9 + 0)];
              bv = bv[1 := state_covariance inst ! (1 * 9 + 1)];
              bv = bv[2 := state_covariance inst ! (2 * 9 + 2)];
              sv = scale_estimate_variance[0 := state_covariance inst ! (3 * 9 + 3)];
              sv = sv[1 := state_covariance inst ! (4 * 9 + 4)];
              sv = sv[2 := state_covariance inst ! (5 * 9 + 5)];
              sv = sv[3 := state_covariance inst ! (4 * 9 + 4)];
              sv = sv[4 := state_covariance inst ! (6 * 9 + 6)];
              sv = sv[5 := state_covariance inst ! (7 * 9 + 7)];
              sv = sv[6 := state_covariance inst ! (5 * 9 + 5)];
              sv = sv[7 := state_covariance inst ! (7 * 9 + 7)];
              sv = sv[8 := state_covariance inst ! (8 * 9 + 8)]
          in ((bias_estimate, scale_estimate, bv, sv), inst))"

subsection \<open>TRICAL_measurement_calibrate\<close>

text \<open>
  Modelled from the spec: \<^verbatim>\<open>_trical_measurement_calibrate\<close> (filter.c) is absent.
  Section 4.3 of the specification describes it as a pure function of the error state
  and the raw reading that mutates no state; its formula is left open there, so it is
  a parameter \<open>cal\<close> of this type wherever it is called.
\<close>

type_synonym calibrate_fn = "real list \<Rightarrow> real list \<Rightarrow> real list"

text \<open>
  The wrapper is the code of TRICAL.c: it hands \<^verbatim>\<open>instance->state\<close> and the reading
  to that function, whose result is what the output buffer holds afterwards.
\<close>

definition TRICAL_measurement_calibrate ::
  "calibrate_fn \<Rightarrow> TRICAL_instance \<Rightarrow> real list \<Rightarrow> real list \<times> TRICAL_instance" where
  "TRICAL_measurement_calibrate cal inst measurement = (cal (state inst) measurement, inst)"

subsection \<open>TRICAL_estimate_update\<close>

text \<open>
  The statistics that steps 1 to 4 of the update cycle (section 4.2 of the specification)
  hand to the correction: the predicted measurement mean, the predicted measurement
  variance, already inflated by the squared measurement noise, and the cross-covariance
  of state and measurement.
\<close>

record ut_stats =
  predicted_mean :: real
  predicted_variance :: real
  cross_covariance :: "real list"

type_synonym ut_fn = "TRICAL_instance \<Rightarrow> real list \<Rightarrow> ut_stats"

text \<open>
  Modelled from the spec: \<^verbatim>\<open>_trical_filter_iterate\<close> (filter.c) is absent.
  Section 4.2 of the specification leaves the spread parameter, the weights and the
  measurement function of steps 1 to 4 open, so the statistics they produce are the
  parameter \<open>ut\<close>. Step 5 and the edge-case policy are taken from the specification's
  words: with a non-positive predicted variance the correction is skipped; otherwise
  the gain is the cross-covariance divided by the variance, the state moves by the gain
  times the innovation \<open>field_norm\<^sup>2 - mean\<close>, and the outer product of gain and
  cross-covariance is subtracted from the covariance.
\<close>

definition trical_filter_iterate ::
  "ut_fn \<Rightarrow> TRICAL_instance \<Rightarrow> real list \<Rightarrow> TRICAL_instance" where
  "trical_filter_iterate ut inst measurement =
     (let s = ut inst measurement in
      if predicted_variance s \<le> 0 then inst
      else
        let gain = map (\<lambda>c. c / predicted_variance s) (cross_covariance s);
            innovation = field_norm inst * field_norm inst - predicted_mean s
        in inst\<lparr>
             state :=
               map (\<lambda>i. state inst ! i + gain ! i * innovation) [0..<TRICAL_STATE_DIM],
             state_covariance :=
               map (\<lambda>k. state_covariance inst ! k
                          - gain ! (k div TRICAL_STATE_DIM)
                            * cross_covariance s ! (k mod TRICAL_STATE_DIM))
                   [0..<TRICAL_STATE_DIM * TRICAL_STATE_DIM]\<rparr>)"

text \<open>
  The code of TRICAL.c: one filter iteration, then \<^verbatim>\<open>instance->measurement_count++\<close>
  on an \<^verbatim>\<open>unsigned int\<close>.
\<close>

definition TRICAL_estimate_update ::
  "ut_fn \<Rightarrow> TRICAL_instance \<Rightarrow> real list \<Rightarrow> TRICAL_instance" where
  "TRICAL_estimate_update ut inst measurement =
     (let inst = trical_filter_iterate ut inst measurement
      in inst\<lparr>measurement_count := measurement_count inst + 1\<rparr>)"

subsection \<open>Sequences of public operations\<close>

datatype operation =
    Op_init
  | Op_norm_set real
  | Op_norm_get
  | Op_noise_set real
  | Op_noise_get
  | Op_measurement_count_get
  | Op_estimate_update "real list"
  | Op_estimate_get
  | Op_estimate_get_ext
  | Op_measurement_calibrate "real list"

text \<open>
  The instance after one public call; the values a call returns are dropped. The calls are
  taken over real arithmetic, the norm setter like the update.
\<close>

fun step :: "ut_fn \<Rightarrow> calibrate_fn \<Rightarrow> operation \<Rightarrow> TRICAL_instance \<Rightarrow> error + TRICAL_instance" where
  "step ut cal Op_init inst = Inr (TRICAL_init inst)"
| "step ut cal (Op_norm_set nrm) inst = TRICAL_norm_set_real inst nrm"
| "step ut cal Op_norm_get inst = Inr (snd (TRICAL_norm_get inst))"
| "step ut cal (Op_noise_set noise) inst = TRICAL_noise_set inst noise"
| "step ut cal Op_noise_get inst = Inr (snd (TRICAL_noise_get inst))"
| "step ut cal Op_measurement_count_get inst = Inr (snd (TRICAL_measurement_count_get inst))"
| "step ut cal (Op_estimate_update m) inst = Inr (TRICAL_estimate_update ut inst m)"
| "step ut cal Op_estimate_get inst =
     Inr (snd (TRICAL_estimate_get inst (replicate 3 0) (replicate 9 0)))"
| "step ut cal Op_estimate_get_ext inst =
     Inr (snd (TRICAL_estimate_get_ext inst (replicate 3 0) (replicate 9 0)
                 (replicate 3 0) (replicate 9 0)))"
| "step ut cal (Op_measurement_calibrate m) inst =
     Inr (snd (TRICAL_measurement_calibrate cal inst m))"

fun run :: "ut_fn \<Rightarrow> calibrate_fn \<Rightarrow> operation list \<Rightarrow> TRICAL_instance \<Rightarrow> error + TRICAL_instance" where
  "run ut cal [] inst = Inr inst"
| "run ut cal (x # xs) inst =
     (case step ut cal x inst of Inl e \<Rightarrow> Inl e | Inr inst' \<Rightarrow> run ut cal xs inst')"

text \<open>The preconditions the source asserts on the arguments of a call.\<close>

fun precondition :: "operation \<Rightarrow> bool" where
  "precondition (Op_norm_set nrm) \<longleftrightarrow> nrm > 0"
| "precondition (Op_noise_set noise) \<longleftrightarrow> noise > 0"
| "precondition _ \<longleftrightarrow> True"

subsection \<open>Concrete inputs used to exercise the theorems\<close>

text \<open>An initialised instance whose stored scale entries are those of the identity matrix.\<close>

definition cx_instance :: TRICAL_instance where
  "cx_instance = (TRICAL_init memset_zero)\<lparr>state := [0, 0, 0, 1, 0, 0, 1, 0, 1]\<rparr>"

text \<open>
  An initialised instance with a non-zero bias, and the instances that the single-precision
  \<open>TRICAL_norm_set\<close> leaves after initialisation and a call with norm \<open>2\<^sup>-\<^sup>2\<^sup>3\<close>
  (\<^verbatim>\<open>FLT_EPSILON\<close>) or \<open>2\<^sup>-\<^sup>1\<^sup>2\<^sup>9\<close> (a subnormal float, whose square underflows to
  zero). \<open>10737418 / 2\<^sup>3\<^sup>0\<close> is the float nearest to \<open>1 / 100\<close>.
\<close>

definition biased_instance :: TRICAL_instance where
  "biased_instance = (TRICAL_init memset_zero)\<lparr>state := [10, - 3, 1 / 2, 1, 0, 0, 1, 0, 1]\<rparr>"

definition eps_instance :: TRICAL_instance where
  "eps_instance = (TRICAL_init memset_zero)
     \<lparr>state_covariance :=
        map (\<lambda>x. if x = 0 then 0 else 10737418 / 2 ^ 76) (state_covariance (TRICAL_init memset_zero)),
      field_norm := 1 / 2 ^ 23\<rparr>"

definition underflow_instance :: TRICAL_instance where
  "underflow_instance = (TRICAL_init memset_zero)
     \<lparr>state_covariance := map (\<lambda>x. 0) (state_covariance (TRICAL_init memset_zero)),
      field_norm := 1 / 2 ^ 129\<rparr>"

text \<open>Stand-ins for the two absent functions: fixed statistics with predicted variance
  \<open>v\<close>, and a calibration that only removes the bias.\<close>

definition const_stats :: "real \<Rightarrow> ut_fn" where
  "const_stats v inst measurement =
     \<lparr>predicted_mean = 1 / 2, predicted_variance = v,
      cross_covariance = [1, 0, 0, 0, 0, 0, 0, 0, 0]\<rparr>"

definition example_cal :: calibrate_fn where
  "example_cal st measurement = map (\<lambda>i. measurement ! i - st ! i) [0..<3]"

section \<open>The matrix kernel (3dmath.h)\<close>

text \<open>
  \<^verbatim>\<open>matrix_cholesky_decomp_scale_f\<close> writes \<open>L\<close> while it reads \<open>A\<close>, and its test
  calls it with both pointing to the same array. Memory is therefore an explicit
  store from addresses (in units of one float) to values, and \<open>L\<close> and \<open>A\<close> are base
  addresses, 0 being the null pointer. The index variables are \<^verbatim>\<open>unsigned int\<close>; they
  stay below \<open>dim * dim\<close>, and the model uses natural numbers for them, which is the code
  for every \<open>dim\<close> with \<open>dim * dim < 2 ^ 32\<close>.
\<close>

type_synonym mem = "nat \<Rightarrow> real"

text \<open>
  The macros of the portable branch: \<^verbatim>\<open>fsqrt(a) = (float)sqrt(a)\<close> and
  \<^verbatim>\<open>recip(a) = 1.0f / (a)\<close>. A negative argument of the square root gives NaN and
  a zero divisor an infinity; both are the error \<open>Not_finite\<close>.
\<close>

definition fsqrt :: "real \<Rightarrow> error + real" where
  "fsqrt a = (if a < 0 then Inl Not_finite else Inr (sqrt a))"

definition recip :: "real \<Rightarrow> error + real" where
  "recip a = (if a = 0 then Inl Not_finite else Inr (1 / a))"

text \<open>
  The innermost loop:
  \<^verbatim>\<open>for (kn = 0; kn < j*dim; kn += dim) s += L[i + kn] * L[j + kn];\<close>
\<close>

function chol_sum :: "nat \<Rightarrow> nat \<Rightarrow> mem \<Rightarrow> nat \<Rightarrow> nat \<Rightarrow> nat \<Rightarrow> real \<Rightarrow> real" where
  "chol_sum dm L h i j kn s =
     (if kn < j * dm
      then chol_sum dm L h i j (kn + dm) (s + h (L + (i + kn)) * h (L + (j + kn)))
      else s)"
  by pat_completeness auto
termination
proof (relation "measure (\<lambda>(dm, L, h, i, j, kn, s). j * dm - kn)")
  fix dm L :: nat and h :: mem and i j kn :: nat and s :: real
  assume "kn < j * dm"
  then have "0 < dm" by (cases dm) simp_all
  with \<open>kn < j * dm\<close>
  show "((dm, L, h, i, j, kn + dm, s + h (L + (i + kn)) * h (L + (j + kn))),
         (dm, L, h, i, j, kn, s)) \<in> measure (\<lambda>(dm, L, h, i, j, kn, s). j * dm - kn)"
    by simp
qed simp

declare chol_sum.simps [simp del]

text \<open>
  The loop over the columns \<open>j = 1 .. i\<close> of row \<open>i\<close>:
  \<^verbatim>\<open>for (j = 1, jn = dim; j <= i; j++, jn += dim) {
      float s = 0;
      for (...) ...
      L[i + jn] = (i == j) ? fsqrt(A[i + in]*mul - s) :
          recip(L[j + jn]) * (A[i + jn]*mul - s);
  }\<close>
\<close>

function chol_row ::
  "nat \<Rightarrow> nat \<Rightarrow> nat \<Rightarrow> real \<Rightarrow> nat \<Rightarrow> nat \<Rightarrow> nat \<Rightarrow> nat \<Rightarrow> mem \<Rightarrow> error + mem" where
  "chol_row dm L A mul i i_n j jn h =
     (if j \<le> i then
        let s = chol_sum dm L h i j 0 0 in
        case (if i = j then fsqrt (h (A + (i + i_n)) * mul - s)
              else case recip (h (L + (j + jn))) of
                     Inl e \<Rightarrow> Inl e
                   | Inr r \<Rightarrow> Inr (r * (h (A + (i + jn)) * mul - s))) of
          Inl e \<Rightarrow> Inl e
        | Inr v \<Rightarrow> chol_row dm L A mul i i_n (j + 1) (jn + dm) (h(L + (i + jn) := v))
      else Inr h)"
  by pat_completeness auto
termination
  by (relation "measure (\<lambda>(dm, L, A, mul, i, i_n, j, jn, h). Suc i - j)") auto

declare chol_row.simps [simp del]

text \<open>
  The loop over the rows:
  \<^verbatim>\<open>for (i = 0, in = 0; i < dim; i++, in += dim) {
      L[i + 0] = (i == 0) ? fsqrt(A[i + in]*mul) : recip(L[0]) * (A[i]*mul);
      for (j = 1, ...) ...
  }\<close>
\<close>

function chol_rows ::
  "nat \<Rightarrow> nat \<Rightarrow> nat \<Rightarrow> real \<Rightarrow> nat \<Rightarrow> nat \<Rightarrow> mem \<Rightarrow> error + mem" where
  "chol_rows dm L A mul i i_n h =
     (if i < dm then
        case (if i = 0 then fsqrt (h (A + (i + i_n)) * mul)
              else case recip (h (L + 0)) of
                     Inl e \<Rightarrow> Inl e
                   | Inr r \<Rightarrow> Inr (r * (h (A + i) * mul))) of
          Inl e \<Rightarrow> Inl e
        | Inr v \<Rightarrow>
            (case chol_row dm L A mul i i_n 1 dm (h(L + (i + 0) := v)) of
               Inl e \<Rightarrow> Inl e
             | Inr h' \<Rightarrow> chol_rows dm L A mul (i + 1) (i_n + dm) h')
      else Inr h)"
  by pat_completeness auto
termination
  by (relation "measure (\<lambda>(dm, L, A, mul, i, i_n, h). dm - i)") auto

declare chol_rows.simps [simp del]

definition matrix_cholesky_decomp_scale_f ::
  "nat \<Rightarrow> nat \<Rightarrow> nat \<Rightarrow> real \<Rightarrow> mem \<Rightarrow> error + mem" where
  "matrix_cholesky_decomp_scale_f dm L A mul h =
     (if \<not> (L \<noteq> 0 \<and> A \<noteq> 0 \<and> dm \<noteq> 0) then Inl Assertion_failed
      else chol_rows dm L A mul 0 0 h)"

subsection \<open>Reading matrices from memory\<close>

text \<open>
  The kernel addresses entry \<open>(i, j)\<close> of a \<open>dim \<times> dim\<close> matrix at offset \<open>i + j * dim\<close>
  (the column-major layout of its test). \<open>lower_part\<close> is the lower-triangular matrix
  stored there, the positions above the diagonal, which the kernel never writes, read
  as zero.
\<close>

definition matrix_at :: "mem \<Rightarrow> nat \<Rightarrow> nat \<Rightarrow> nat \<Rightarrow> nat \<Rightarrow> real" where
  "matrix_at h base dm i j = h (base + (i + j * dm))"

definition lower_part :: "mem \<Rightarrow> nat \<Rightarrow> nat \<Rightarrow> nat \<Rightarrow> nat \<Rightarrow> real" where
  "lower_part h base dm i j = (if j \<le> i then matrix_at h base dm i j else 0)"

text \<open>
  The two arrays are either the same array (the in-place call of the test) or do
  not overlap.
\<close>

definition same_or_disjoint :: "nat \<Rightarrow> nat \<Rightarrow> nat \<Rightarrow> bool" where
  "same_or_disjoint dm L A \<longleftrightarrow> L = A \<or> L + dm * dm \<le> A \<or> A + dm * dm \<le> L"

subsection \<open>The specification's side: Cholesky factor and positive definiteness\<close>

text \<open>
  The recurrence of section 4.1 of the specification, as a function of the (already
  scaled) matrix: the diagonal entry is the square root of \<open>M i i\<close> minus the squares to
  its left, an entry below the diagonal is \<open>M i j\<close> minus the products to its left,
  divided by the diagonal entry of its column, and entries above the diagonal are zero.
\<close>

function cholesky_entry :: "(nat \<Rightarrow> nat \<Rightarrow> real) \<Rightarrow> nat \<Rightarrow> nat \<Rightarrow> real" where
  "cholesky_entry M i j =
     (if i = j then sqrt (M i i - (\<Sum>p<i. (cholesky_entry M i p)\<^sup>2))
      else if j < i then
        (M i j - (\<Sum>p<j. cholesky_entry M i p * cholesky_entry M j p)) / cholesky_entry M j j
      else 0)"
  by pat_completeness auto
termination
  by (relation "measures [\<lambda>(M, i, j). j, \<lambda>(M, i, j). i]") auto

declare cholesky_entry.simps [simp del]

text \<open>The argument of the square root in row \<open>i\<close>.\<close>

definition pivot :: "(nat \<Rightarrow> nat \<Rightarrow> real) \<Rightarrow> nat \<Rightarrow> real" where
  "pivot M i = M i i - (\<Sum>p<i. (cholesky_entry M i p)\<^sup>2)"

definition symmetric_matrix :: "nat \<Rightarrow> (nat \<Rightarrow> nat \<Rightarrow> real) \<Rightarrow> bool" where
  "symmetric_matrix n M \<longleftrightarrow> (\<forall>i<n. \<forall>j<n. M i j = M j i)"

text \<open>Positive definiteness: the quadratic form is positive on every non-zero vector.\<close>

definition positive_definite :: "nat \<Rightarrow> (nat \<Rightarrow> nat \<Rightarrow> real) \<Rightarrow> bool" where
  "positive_definite n M \<longleftrightarrow>
     (\<forall>x. (\<exists>i<n. x i \<noteq> 0) \<longrightarrow> 0 < (\<Sum>i<n. \<Sum>j<n. x i * M i j * x j))"

text \<open>
  The state of the kernel's loops when row \<open>i\<close> is filled up to, not including, column
  \<open>j\<close>: the positions of \<open>L\<close> written so far hold the entries of the factor of \<open>M\<close>, and the
  lower-triangle positions of \<open>A\<close> not yet overwritten hold what they held in \<open>h0\<close>.
\<close>

definition chol_inv ::
  "nat \<Rightarrow> nat \<Rightarrow> nat \<Rightarrow> (nat \<Rightarrow> nat \<Rightarrow> real) \<Rightarrow> mem \<Rightarrow> mem \<Rightarrow> nat \<Rightarrow> nat \<Rightarrow> bool" where
  "chol_inv dm L A M h0 h i j \<longleftrightarrow>
     (\<forall>a b. a < dm \<longrightarrow> b \<le> a \<longrightarrow> (a < i \<or> (a = i \<and> b < j)) \<longrightarrow>
        h (L + (a + b * dm)) = cholesky_entry M a b) \<and>
     (\<forall>a b. a < dm \<longrightarrow> b \<le> a \<longrightarrow> \<not> (a < i \<or> (a = i \<and> b < j)) \<longrightarrow>
        h (A + (a + b * dm)) = h0 (A + (a + b * dm)))"

subsection \<open>The matrices of the test\<close>

text \<open>\<^verbatim>\<open>m1\<close> and \<^verbatim>\<open>expected\<close> of the test \<^verbatim>\<open>MatrixMath.CholeskyLLT\<close>.\<close>

definition m1 :: "real list" where
  "m1 = [18, 22, 54, 42,
         22, 70, 86, 62,
         54, 86, 174, 134,
         42, 62, 134, 106]"

definition expected :: "real list" where
  "expected = [4.24264, 5.18545, 12.72792, 9.8994951,
               0, 6.5659051, 3.0460384, 1.6245539,
               0, 0, 1.6497422, 1.8497111,
               0, 0, 0, 1.3926213]"

text \<open>A memory that holds \<open>m1\<close> at address 1 and zero elsewhere, and one that holds the
  symmetric positive-definite matrix with rows \<open>(4, 2)\<close> and \<open>(2, 5)\<close> there.\<close>

definition test_mem :: mem where
  "test_mem a = (if 1 \<le> a \<and> a < 17 then m1 ! (a - 1) else 0)"

definition small_mem :: mem where
  "small_mem a = (if 1 \<le> a \<and> a < 5 then [4, 2, 2, 5] ! (a - 1) else 0)"

section \<open>Properties of the calibration state operations\<close>

subsection \<open>Initialisation\<close>

lemma init_cov_loop_length: "length (init_cov_loop i cov) = length cov"
  by (induction i cov rule: init_cov_loop.induct) (subst init_cov_loop.simps, simp)

lemma init_cov_loop_nth:
  "k < length cov \<Longrightarrow>
   init_cov_loop i cov ! k = (if i \<le> k \<and> k < 81 \<and> 10 dvd (k - i) then 1 / 100 else cov ! k)"
proof (induction i cov rule: init_cov_loop.induct)
  case (1 i cov)
  show ?case
  proof (cases "i < 81")
    case True
    have eq: "(i \<le> k \<and> 10 dvd (k - i)) \<longleftrightarrow> (k = i \<or> (i + 10 \<le> k \<and> 10 dvd (k - (i + 10))))"
    proof (cases "i + 10 \<le> k")
      case True
      then obtain m where m: "k = i + 10 + m"
        using le_Suc_ex by blast
      have "10 dvd (m + 10) \<longleftrightarrow> 10 dvd m" by simp
      with m show ?thesis by simp
    next
      case False
      then have "k - i < 10" by simp
      then have "10 dvd (k - i) \<longleftrightarrow> k - i = 0"
        by (auto dest: dvd_imp_le)
      with False show ?thesis by auto
    qed
    from True 1 have "init_cov_loop i cov ! k =
        (if i + 10 \<le> k \<and> k < 81 \<and> 10 dvd (k - (i + 10)) then 1 / 100 else cov[i := 1 / 100] ! k)"
      by (subst init_cov_loop.simps) simp
    with 1(2) True eq show ?thesis
      by (auto simp: nth_list_update)
  next
    case False
    then show ?thesis
      by (subst init_cov_loop.simps) auto
  qed
qed

lemma below9:
  "(i::nat) < 9 \<Longrightarrow>
   i = 0 \<or> i = 1 \<or> i = 2 \<or> i = 3 \<or> i = 4 \<or> i = 5 \<or> i = 6 \<or> i = 7 \<or> i = 8"
  by linarith

lemma diag_row:
  assumes "j < 9"
  shows "(10 dvd (0 * 9 + j) \<longleftrightarrow> 0 = (j::nat)) \<and> (10 dvd (1 * 9 + j) \<longleftrightarrow> 1 = (j::nat)) \<and>
   (10 dvd (2 * 9 + j) \<longleftrightarrow> 2 = (j::nat)) \<and> (10 dvd (3 * 9 + j) \<longleftrightarrow> 3 = (j::nat)) \<and>
   (10 dvd (4 * 9 + j) \<longleftrightarrow> 4 = (j::nat)) \<and> (10 dvd (5 * 9 + j) \<longleftrightarrow> 5 = (j::nat)) \<and>
   (10 dvd (6 * 9 + j) \<longleftrightarrow> 6 = (j::nat)) \<and> (10 dvd (7 * 9 + j) \<longleftrightarrow> 7 = (j::nat)) \<and>
   (10 dvd (8 * 9 + j) \<longleftrightarrow> 8 = (j::nat))"
  using below9 [OF assms] by (elim disjE) (simp_all add: dvd_eq_mod_eq_0)

lemma diag_index:
  assumes "i < 9" "j < 9"
  shows "10 dvd (i * 9 + j) \<longleftrightarrow> i = (j::nat)"
  using below9 [OF assms(1)] diag_row [OF assms(2)] by (elim disjE) simp_all

lemma init_simps:
  "field_norm (TRICAL_init inst) = 1"
  "measurement_noise (TRICAL_init inst) = 1 / 1000000"
  "measurement_count (TRICAL_init inst) = 0"
  "state (TRICAL_init inst) = replicate 9 0"
  "state_covariance (TRICAL_init inst) = init_cov_loop 0 (replicate 81 0)"
  by (simp_all add: TRICAL_init_def memset_zero_def Let_def)

lemma init_wf: "wf_instance (TRICAL_init inst)"
  by (simp add: wf_instance_def init_simps init_cov_loop_length)

text \<open>
  Claim C3. After \<open>TRICAL_init\<close>, whatever the instance held before (fresh memory or
  an initialised instance), the nine entries of the error state are zero, the field
  norm is 1, the measurement noise is \<open>10\<^sup>-\<^sup>6\<close>, the covariance has \<open>10\<^sup>-\<^sup>2\<close> on its
  diagonal and zero elsewhere, and the measurement count is zero. A second call changes
  nothing.
\<close>

theorem C3_init_defaults:
  "length (state (TRICAL_init inst)) = 9 \<and>
   (\<forall>i<9. state (TRICAL_init inst) ! i = 0) \<and>
   field_norm (TRICAL_init inst) = 1 \<and>
   measurement_noise (TRICAL_init inst) = 1 / 1000000 \<and>
   length (state_covariance (TRICAL_init inst)) = 81 \<and>
   (\<forall>i<9. \<forall>j<9. state_covariance (TRICAL_init inst) ! (i * 9 + j)
                    = (if i = j then 1 / 100 else 0)) \<and>
   measurement_count (TRICAL_init inst) = 0 \<and>
   TRICAL_init (TRICAL_init inst) = TRICAL_init inst"
proof -
  have "state_covariance (TRICAL_init inst) ! (i * 9 + j) = (if i = j then 1 / 100 else 0)"
    if "i < 9" "j < 9" for i j
  proof -
    from that have k: "i * 9 + j < 81" by simp
    with that show ?thesis
      by (simp add: init_simps init_cov_loop_nth diag_index)
  qed
  moreover have "length (state_covariance (TRICAL_init inst)) = 81"
    by (simp add: init_simps init_cov_loop_length)
  moreover have "TRICAL_init (TRICAL_init inst) = TRICAL_init inst"
    by (simp add: TRICAL_init_def)
  ultimately show ?thesis
    by (simp add: init_simps)
qed

theorem C3_init_defaults_witness:
  "state_covariance (TRICAL_init memset_zero) ! (4 * 9 + 4) = 1 / 100 \<and>
   state_covariance (TRICAL_init memset_zero) ! (4 * 9 + 5) = 0 \<and>
   state (TRICAL_init memset_zero) ! 8 = 0"
proof -
  note t = C3_init_defaults [of memset_zero]
  from t have c: "\<forall>i<9. \<forall>j<9. state_covariance (TRICAL_init memset_zero) ! (i * 9 + j)
      = (if i = j then 1 / 100 else 0)"
    by (elim conjE)
  from t have s: "\<forall>i<9. state (TRICAL_init memset_zero) ! i = 0"
    by (elim conjE)
  from c [rule_format, of 4 4] c [rule_format, of 4 5] s [rule_format, of 8]
  show ?thesis by simp
qed

subsection \<open>Norm rescaling\<close>

lemma scale_loop_eq:
  assumes g: "\<forall>x\<in>set xs. float_mul rnd (Finite x) scale = Finite (g x)"
    and n: "length xs = n"
  shows "i \<le> n \<Longrightarrow> length ys = n \<Longrightarrow> drop i ys = drop i xs \<Longrightarrow>
   scale_loop rnd i n scale ys = Inr (take i ys @ map g (drop i xs))"
proof (induction "n - i" arbitrary: i ys)
  case 0
  with n show ?case
    by (subst scale_loop.simps) simp
next
  case (Suc k)
  then have lt: "i < n" by simp
  with n Suc.prems have yi: "ys ! i = xs ! i"
    by (metis nth_via_drop Cons_nth_drop_Suc)
  from lt n have "xs ! i \<in> set xs" by simp
  with g have "float_mul rnd (Finite (xs ! i)) scale = Finite (g (xs ! i))"
    by blast
  then have v: "finite_value (float_mul rnd (Finite (ys ! i)) scale) = Inr (g (xs ! i))"
    by (simp add: finite_value_def yi)
  from Suc.prems(3) have d: "drop (Suc i) (ys[i := g (xs ! i)]) = drop (Suc i) xs"
    by (metis drop_Suc drop_update_cancel lessI tl_drop)
  from lt v have "scale_loop rnd i n scale ys
      = scale_loop rnd (Suc i) n scale (ys[i := g (xs ! i)])"
    by (subst scale_loop.simps) simp
  also from lt Suc.hyps(2) Suc.prems(2) d
  have "\<dots> = Inr (take (Suc i) (ys[i := g (xs ! i)]) @ map g (drop (Suc i) xs))"
    by (intro Suc.hyps(1)) simp_all
  also from lt Suc.prems(2) have "take (Suc i) (ys[i := g (xs ! i)]) = take i ys @ [g (xs ! i)]"
    by (simp add: take_Suc_conv_app_nth)
  finally show ?case
    using lt n by (simp add: Cons_nth_drop_Suc [symmetric])
qed

lemma scale_loop_map:
  assumes "length xs = n" and "\<forall>x\<in>set xs. float_mul rnd (Finite x) scale = Finite (g x)"
  shows "scale_loop rnd 0 n scale xs = Inr (map g xs)"
  using scale_loop_eq [OF assms(2,1), of 0 xs] assms(1) by simp

lemma scale_loop_fails:
  assumes "0 < n" and "finite_value (float_mul rnd (Finite (xs ! 0)) scale) = Inl e"
  shows "scale_loop rnd 0 n scale xs = Inl e"
  using assms by (subst scale_loop.simps) simp

text \<open>A call that gets past the early return and stores only finite values.\<close>

lemma norm_set_with_rescale:
  assumes wf: "wf_instance inst" and pos: "0 < nrm"
    and far: "rnd (nrm - field_norm inst) = Finite d" "\<not> \<bar>d\<bar> < FLT_EPSILON"
    and st: "\<forall>x\<in>set (state inst).
       float_mul rnd (Finite x) (float_div rnd (Finite nrm) (Finite (field_norm inst))) = Finite (g x)"
    and cov: "\<forall>x\<in>set (state_covariance inst).
       float_mul rnd (Finite x)
         (float_div rnd (float_mul rnd (Finite nrm) (Finite nrm))
            (float_mul rnd (Finite (field_norm inst)) (Finite (field_norm inst)))) = Finite (g2 x)"
  shows "norm_set_with rnd inst nrm =
    Inr (inst\<lparr>state := map g (state inst),
              state_covariance := map g2 (state_covariance inst),
              field_norm := nrm\<rparr>)"
proof -
  from wf have l: "length (state inst) = 9" "length (state_covariance inst) = 9 * 9"
    by (simp_all add: wf_instance_def)
  show ?thesis
    unfolding norm_set_with_def Let_def scale_loop_map [OF l(1) st] scale_loop_map [OF l(2) cov]
    using pos far by simp
qed

lemma norm_set_with_noop:
  assumes "0 < nrm" and "rnd (nrm - field_norm inst) = Finite d" and "\<bar>d\<bar> < FLT_EPSILON"
  shows "norm_set_with rnd inst nrm = Inr inst"
  using assms by (simp add: norm_set_with_def)

text \<open>Over real arithmetic.\<close>

lemma norm_set_noop:
  "0 < nrm \<Longrightarrow> \<bar>nrm - field_norm inst\<bar> < FLT_EPSILON \<Longrightarrow> TRICAL_norm_set_real inst nrm = Inr inst"
  by (simp add: TRICAL_norm_set_real_def norm_set_with_def exact_def)

lemma norm_set_rescale:
  assumes "wf_instance inst" "0 < nrm" "field_norm inst \<noteq> 0"
    "\<not> \<bar>nrm - field_norm inst\<bar> < FLT_EPSILON"
  shows "TRICAL_norm_set_real inst nrm =
    Inr (inst\<lparr>state := map (\<lambda>x. x * (nrm / field_norm inst)) (state inst),
              state_covariance := map (\<lambda>x. x * ((nrm * nrm) / (field_norm inst * field_norm inst))) (state_covariance inst),
              field_norm := nrm\<rparr>)"
  unfolding TRICAL_norm_set_real_def
  using assms by (intro norm_set_with_rescale [where d = "nrm - field_norm inst"]) (simp_all add: exact_def)

lemma scale_loop_exact_total:
  "\<exists>ys. scale_loop exact i n (Finite c) xs = Inr ys"
proof (induction "n - i" arbitrary: i xs)
  case 0
  then show ?case by (subst scale_loop.simps) simp
next
  case (Suc k)
  then have lt: "i < n" by simp
  have v: "finite_value (float_mul exact (Finite (xs ! i)) (Finite c)) = Inr (xs ! i * c)"
    by (simp add: finite_value_def exact_def)
  from Suc.hyps(2) have "k = n - Suc i" by simp
  from Suc.hyps(1) [OF this, of "xs[i := xs ! i * c]"] lt v show ?case
    by (subst scale_loop.simps) simp
qed

lemma cx_wf: "wf_instance cx_instance"
  using init_wf [of memset_zero] by (simp add: cx_instance_def wf_instance_def)

lemma cx_field_norm: "field_norm cx_instance = 1"
  by (simp add: cx_instance_def init_simps)

lemma cx_state: "state cx_instance = [0, 0, 0, 1, 0, 0, 1, 0, 1]"
  by (simp add: cx_instance_def)

lemma cx_far: "FLT_EPSILON \<le> \<bar>2 - field_norm cx_instance\<bar>"
  by (simp add: cx_field_norm FLT_EPSILON_def)

subsection \<open>Single-precision rounding\<close>

lemma search_exponent_spec:
  "e0 \<le> search_exponent n e0 a \<and> search_exponent n e0 a \<le> e0 + int n \<and>
   (e0 < search_exponent n e0 a \<longrightarrow> 2 powi (search_exponent n e0 a) \<le> a) \<and>
   (search_exponent n e0 a < e0 + int n \<longrightarrow> a < 2 powi (search_exponent n e0 a + 1))"
proof (induction n arbitrary: e0)
  case 0
  show ?case by simp
next
  case (Suc n)
  show ?case
  proof (cases "2 powi (e0 + 1) \<le> a")
    case True
    let ?r = "search_exponent n (e0 + 1) a"
    from Suc [of "e0 + 1"] have ih: "e0 + 1 \<le> ?r" "?r \<le> e0 + 1 + int n"
      "e0 + 1 < ?r \<longrightarrow> 2 powi ?r \<le> a" "?r < e0 + 1 + int n \<longrightarrow> a < 2 powi (?r + 1)"
      by simp_all
    have "2 powi ?r \<le> a"
    proof (cases "?r = e0 + 1")
      case True
      with \<open>2 powi (e0 + 1) \<le> a\<close> show ?thesis by simp
    next
      case False
      with ih(1,3) show ?thesis by simp
    qed
    with ih True show ?thesis by simp
  next
    case False
    then show ?thesis by simp
  qed
qed

lemma float_exponent_range: "- 126 \<le> float_exponent x" "float_exponent x \<le> 127"
  using search_exponent_spec [of "- 126" 253 "\<bar>x\<bar>"] by (simp_all add: float_exponent_def)

lemma float_exponent_lower: "- 126 < float_exponent x \<Longrightarrow> 2 powi float_exponent x \<le> \<bar>x\<bar>"
  using search_exponent_spec [of "- 126" 253 "\<bar>x\<bar>"] by (simp add: float_exponent_def)

lemma float_exponent_upper: "float_exponent x < 127 \<Longrightarrow> \<bar>x\<bar> < 2 powi (float_exponent x + 1)"
  using search_exponent_spec [of "- 126" 253 "\<bar>x\<bar>"] by (simp add: float_exponent_def)

lemma round_half_even_le:
  assumes "m \<le> of_int N"
  shows "round_half_even m \<le> N"
proof -
  from assms have f: "\<lfloor>m\<rfloor> \<le> N" by (simp add: floor_le_iff)
  show ?thesis
  proof (cases "\<lfloor>m\<rfloor> = N")
    case True
    with assms have "m - of_int \<lfloor>m\<rfloor> \<le> 0" by simp
    then have "m - of_int \<lfloor>m\<rfloor> < 1 / 2" by simp
    with True show ?thesis by (simp add: round_half_even_def Let_def)
  next
    case False
    with f have "\<lfloor>m\<rfloor> + 1 \<le> N" by simp
    then show ?thesis by (simp add: round_half_even_def Let_def)
  qed
qed

lemma round_half_even_ge:
  assumes "of_int N \<le> m"
  shows "N \<le> round_half_even m"
proof -
  from assms have "N \<le> \<lfloor>m\<rfloor>" by (simp add: le_floor_iff)
  then show ?thesis by (simp add: round_half_even_def Let_def)
qed

lemma round_half_even_abs_le:
  assumes "\<bar>m\<bar> \<le> of_int N"
  shows "\<bar>round_half_even m\<bar> \<le> N"
proof -
  from assms have "m \<le> of_int N" "of_int (- N) \<le> m" by simp_all
  from round_half_even_le [OF this(1)] round_half_even_ge [OF this(2)]
  show ?thesis by simp
qed

lemma round_half_even_abs_less:
  assumes "\<bar>m\<bar> < of_int N - 1 / 2"
  shows "\<bar>round_half_even m\<bar> \<le> N - 1"
proof -
  let ?f = "\<lfloor>m\<rfloor>"
  from assms have up: "m < of_int N - 1 / 2" and lo: "- of_int N + 1 / 2 < m" by simp_all
  have "round_half_even m \<le> N - 1"
  proof (cases "?f = N - 1")
    case True
    with up have "m - of_int ?f < 1 / 2" by simp
    with True show ?thesis by (simp add: round_half_even_def Let_def)
  next
    case False
    from up have "m < of_int N" by simp
    then have "?f < N" by (simp add: floor_less_iff)
    with False have "?f + 1 \<le> N - 1" by simp
    then show ?thesis by (simp add: round_half_even_def Let_def)
  qed
  moreover have "- (N - 1) \<le> round_half_even m"
  proof (cases "?f = - N")
    case True
    with lo have "1 / 2 < m - of_int ?f" by simp
    with True show ?thesis by (simp add: round_half_even_def Let_def)
  next
    case False
    from lo have "of_int (- N) \<le> m" by simp
    then have "- N \<le> ?f" by (simp add: le_floor_iff)
    with False have "- N + 1 \<le> ?f" by simp
    then show ?thesis by (simp add: round_half_even_def Let_def)
  qed
  ultimately show ?thesis by simp
qed

lemma float_round_zero: "float_round 0 = Finite 0"
  by (simp add: float_round_def round_half_even_def)

text \<open>
  A real below \<open>2\<^sup>-\<^sup>2\<^sup>3 - 2\<^sup>-\<^sup>4\<^sup>8\<close> in magnitude, the midpoint between \<open>FLT_EPSILON\<close> and the
  float before it, rounds to a float below \<open>FLT_EPSILON\<close>.
\<close>

lemma float_round_below_epsilon:
  assumes "\<bar>x\<bar> < FLT_EPSILON - 1 / 2 ^ 48"
  shows "\<exists>d. float_round x = Finite d \<and> \<bar>d\<bar> < FLT_EPSILON"
proof -
  define e where "e = float_exponent x"
  define u :: real where "u = 2 powi (e - 23)"
  define k where "k = round_half_even (x / u)"
  have u: "0 < u" by (simp add: u_def)
  have fr: "float_round x = (if 2 powi 128 \<le> \<bar>of_int k * u\<bar> then Infinity else Finite (of_int k * u))"
    by (simp add: float_round_def Let_def k_def u_def e_def)
  from assms have x23: "\<bar>x\<bar> < 2 powi (- 23)"
    by (simp add: FLT_EPSILON_def)
  have "\<bar>of_int k * u\<bar> < FLT_EPSILON"
  proof (cases "\<bar>x\<bar> < 2 powi (- 24)")
    case True
    have le: "e \<le> - 25"
    proof (rule ccontr)
      assume "\<not> e \<le> - 25"
      then have ge: "- 24 \<le> e" by simp
      then have "2 powi e \<le> \<bar>x\<bar>"
        unfolding e_def by (intro float_exponent_lower) simp
      moreover from ge have "(2::real) powi (- 24) \<le> 2 powi e"
        by (intro power_int_increasing) simp_all
      ultimately show False using True by simp
    qed
    define N :: int where "N = 2 ^ nat (- 1 - e)"
    from le have N: "(of_int N :: real) = 2 powi (- 1 - e)"
      by (simp add: N_def power_int_def)
    have Nu: "of_int N * u = 2 powi (- 24)"
      unfolding N u_def by (simp flip: power_int_add)
    from u have "\<bar>x / u\<bar> = \<bar>x\<bar> / u" by simp
    also from True have "\<bar>x\<bar> \<le> 2 powi (- 24)" by (rule less_imp_le)
    then have "\<bar>x\<bar> / u \<le> 2 powi (- 24) / u"
      using u by (intro divide_right_mono) simp_all
    also from u Nu have "2 powi (- 24) / u = of_int N"
      by (simp add: field_simps)
    finally have "\<bar>k\<bar> \<le> N"
      unfolding k_def by (rule round_half_even_abs_le)
    then have "\<bar>of_int k * u\<bar> \<le> of_int N * u"
      using u by (simp add: abs_mult flip: of_int_abs)
    with Nu show ?thesis
      by (simp add: FLT_EPSILON_def)
  next
    case False
    then have ge24: "2 powi (- 24) \<le> \<bar>x\<bar>" by simp
    have "- 24 \<le> e"
    proof (rule ccontr)
      assume "\<not> - 24 \<le> e"
      then have lt: "e + 1 \<le> - 24" by simp
      then have "\<bar>x\<bar> < 2 powi (e + 1)"
        unfolding e_def by (intro float_exponent_upper) simp
      moreover from lt have "(2::real) powi (e + 1) \<le> 2 powi (- 24)"
        by (intro power_int_increasing) simp_all
      ultimately show False using ge24 by simp
    qed
    moreover have "e \<le> - 24"
    proof (rule ccontr)
      assume "\<not> e \<le> - 24"
      then have ge: "- 23 \<le> e" by simp
      then have "2 powi e \<le> \<bar>x\<bar>"
        unfolding e_def by (intro float_exponent_lower) simp
      moreover from ge have "(2::real) powi (- 23) \<le> 2 powi e"
        by (intro power_int_increasing) simp_all
      ultimately show False using x23 by simp
    qed
    ultimately have e: "e = - 24" by simp
    then have u47: "u = 1 / 2 ^ 47"
      by (simp add: u_def)
    from assms have "\<bar>x / u\<bar> < of_int (2 ^ 24) - 1 / 2"
      by (simp add: u47 FLT_EPSILON_def)
    then have "\<bar>k\<bar> \<le> 2 ^ 24 - 1"
      unfolding k_def by (rule round_half_even_abs_less)
    then have "(of_int \<bar>k\<bar> :: real) \<le> of_int (2 ^ 24 - 1)"
      by (simp only: of_int_le_iff)
    then have "\<bar>of_int k :: real\<bar> \<le> 2 ^ 24 - 1"
      by simp
    then show ?thesis
      by (simp add: abs_mult u47 FLT_EPSILON_def field_simps)
  qed
  moreover have "FLT_EPSILON < 2 powi 128"
    by (simp add: FLT_EPSILON_def)
  ultimately show ?thesis
    by (simp add: fr)
qed

lemma float_exponent_eq:
  assumes "- 126 \<le> e" and "e \<le> 127"
    and lo: "- 126 < e \<longrightarrow> 2 powi e \<le> \<bar>x\<bar>" and hi: "e < 127 \<longrightarrow> \<bar>x\<bar> < 2 powi (e + 1)"
  shows "float_exponent x = e"
proof (rule ccontr)
  let ?r = "float_exponent x"
  assume "?r \<noteq> e"
  then consider "?r < e" | "e < ?r" by linarith
  then show False
  proof cases
    case 1
    with assms(2) have "\<bar>x\<bar> < 2 powi (?r + 1)"
      by (intro float_exponent_upper) simp
    also from 1 have "(2::real) powi (?r + 1) \<le> 2 powi e"
      by (intro power_int_increasing) simp_all
    also from 1 float_exponent_range(1) [of x] lo have "2 powi e \<le> \<bar>x\<bar>" by simp
    finally show False by simp
  next
    case 2
    with assms(1) have "2 powi ?r \<le> \<bar>x\<bar>"
      by (intro float_exponent_lower) simp
    also from 2 float_exponent_range(2) [of x] hi have "\<bar>x\<bar> < 2 powi (e + 1)" by simp
    also from 2 have "(2::real) powi (e + 1) \<le> 2 powi ?r"
      by (intro power_int_increasing) simp_all
    finally show False by simp
  qed
qed

lemma pow2_less_imp:
  assumes "(2::real) powi a < 2 powi b"
  shows "a < b"
proof (rule ccontr)
  assume "\<not> a < b"
  then have "(2::real) powi b \<le> 2 powi a"
    by (intro power_int_increasing) simp_all
  with assms show False by simp
qed

text \<open>Rounding a real whose binade is known.\<close>

lemma float_round_at:
  assumes "- 126 \<le> e" and "e \<le> 127"
    and "- 126 < e \<longrightarrow> 2 powi e \<le> \<bar>x\<bar>" and "e < 127 \<longrightarrow> \<bar>x\<bar> < 2 powi (e + 1)"
  shows "float_round x =
    (let u = 2 powi (e - 23); y = of_int (round_half_even (x / u)) * u
     in if 2 powi 128 \<le> \<bar>y\<bar> then Infinity else Finite y)"
  by (simp add: float_round_def float_exponent_eq [OF assms])

lemma round_half_even_of_int: "round_half_even (of_int n) = n"
  by (simp add: round_half_even_def)

text \<open>Floats round to themselves.\<close>

lemma float_round_exact:
  assumes k: "\<bar>k\<bar> < 2 ^ 24" and j: "- 149 \<le> j" and x: "x = of_int k * 2 powi j"
    and fin: "\<bar>x\<bar> < 2 powi 128"
  shows "float_round x = Finite x"
proof -
  define e where "e = float_exponent x"
  have ej: "e - 23 \<le> j"
  proof (cases "e = - 126")
    case True
    with j show ?thesis by simp
  next
    case False
    with float_exponent_range(1) [of x] have "- 126 < e" by (simp add: e_def)
    then have "2 powi e \<le> \<bar>x\<bar>"
      unfolding e_def by (rule float_exponent_lower)
    also have "\<bar>x\<bar> = of_int \<bar>k\<bar> * 2 powi j"
      by (simp add: x abs_mult)
    also from k have "(of_int \<bar>k\<bar> :: real) < of_int (2 ^ 24)"
      by (simp only: of_int_less_iff)
    then have "of_int \<bar>k\<bar> * 2 powi j < (2 powi 24 :: real) * 2 powi j"
      by (intro mult_strict_right_mono) simp_all
    also have "(2 powi 24 :: real) * 2 powi j = 2 powi (24 + j)"
      by (simp add: power_int_add)
    finally have "e < 24 + j"
      by (rule pow2_less_imp)
    then show ?thesis by simp
  qed
  define n :: int where "n = k * 2 ^ nat (j - (e - 23))"
  from ej have "(2::real) powi (j - (e - 23)) = of_int (2 ^ nat (j - (e - 23)))"
    by (simp add: power_int_def)
  moreover have "(2::real) powi j / 2 powi (e - 23) = 2 powi (j - (e - 23))"
    by (subst power_int_diff) simp_all
  ultimately have "(2::real) powi j / 2 powi (e - 23) = of_int (2 ^ nat (j - (e - 23)))"
    by (simp only:)
  then have "of_int k * (2 powi j / 2 powi (e - 23)) = (of_int n :: real)"
    by (simp only: n_def of_int_mult)
  then have qn: "x / 2 powi (e - 23) = of_int n"
    by (simp only: x times_divide_eq_right)
  have up: "(0::real) < 2 powi (e - 23)" by simp
  from qn have "of_int n * 2 powi (e - 23) = x"
    using up by (simp only: nonzero_divide_eq_eq [OF less_imp_neq [OF up, symmetric]])
  with qn have "of_int (round_half_even (x / 2 powi (e - 23))) * 2 powi (e - 23) = x"
    by (simp only: round_half_even_of_int)
  with fin show ?thesis
    by (simp add: float_round_def Let_def e_def)
qed

lemma float_round_pow2:
  assumes "- 149 \<le> j" and "j < 128"
  shows "float_round (2 powi j) = Finite (2 powi j)"
proof (rule float_round_exact [of 1 j])
  from assms(2) have "(2::real) powi j < 2 powi 128"
    by (intro power_int_strict_increasing) simp_all
  moreover have "\<bar>(2::real) powi j\<bar> = 2 powi j" by simp
  ultimately show "\<bar>(2::real) powi j\<bar> < 2 powi 128" by (simp only:)
qed (use assms in simp_all)

lemma init_cov_loop_set: "set (init_cov_loop i cov) \<subseteq> insert (1 / 100) (set cov)"
proof (induction i cov rule: init_cov_loop.induct)
  case (1 i cov)
  show ?case
  proof (cases "i < 81")
    case True
    from 1 [OF] True have "set (init_cov_loop (i + 10) (cov[i := 1 / 100]))
        \<subseteq> insert (1 / 100) (set (cov[i := 1 / 100]))"
      by simp
    also have "\<dots> \<subseteq> insert (1 / 100) (set cov)"
      using set_update_subset_insert [of cov i "1 / 100"] by auto
    finally show ?thesis
      using True by (subst init_cov_loop.simps) simp
  next
    case False
    then show ?thesis by (subst init_cov_loop.simps) auto
  qed
qed

lemma init_cov_set: "set (state_covariance (TRICAL_init inst)) \<subseteq> {0, 1 / 100}"
  using init_cov_loop_set [of 0 "replicate 81 0"] by (auto simp: init_simps)

text \<open>The roundings met on the way from initialisation through norm \<open>2\<^sup>-\<^sup>2\<^sup>3\<close> to \<open>2\<^sup>-\<^sup>6\<^sup>0\<close>,
  and through norm \<open>2\<^sup>-\<^sup>1\<^sup>2\<^sup>9\<close> back to 1.\<close>

lemma round_representable:
  "float_round 0 = Finite 0"
  "float_round 1 = Finite 1"
  "float_round (1 / 2 ^ 23) = Finite (1 / 2 ^ 23)"
  "float_round (1 / 2 ^ 37) = Finite (1 / 2 ^ 37)"
  "float_round (1 / 2 ^ 46) = Finite (1 / 2 ^ 46)"
  "float_round (1 / 2 ^ 74) = Finite (1 / 2 ^ 74)"
  "float_round (1 / 2 ^ 120) = Finite (1 / 2 ^ 120)"
  "float_round (1 / 2 ^ 129) = Finite (1 / 2 ^ 129)"
  using float_round_pow2 [of 0] float_round_pow2 [of "- 23"] float_round_pow2 [of "- 37"]
    float_round_pow2 [of "- 46"] float_round_pow2 [of "- 74"] float_round_pow2 [of "- 120"]
    float_round_pow2 [of "- 129"]
  by (simp_all add: float_round_zero)

lemma round_to_eps_minus_one: "float_round (1 / 2 ^ 23 - 1) = Finite (1 / 2 ^ 23 - 1)"
  by (rule float_round_exact [of "- 8388607" "- 23"]) simp_all

lemma round_cov_subnormal:
  "float_round (10737418 / 2 ^ 76 * (1 / 2 ^ 74)) = Finite (5368709 / 2 ^ 149)"
proof -
  have "float_round (5368709 / 2 ^ 149) = Finite (5368709 / 2 ^ 149)"
    by (rule float_round_exact [of 5368709 "- 149"]) simp_all
  then show ?thesis by simp
qed

lemma float_round_finite_at:
  assumes "- 126 \<le> e" and "e \<le> 127"
    and "- 126 < e \<longrightarrow> 2 powi e \<le> \<bar>x\<bar>" and "e < 127 \<longrightarrow> \<bar>x\<bar> < 2 powi (e + 1)"
    and "round_half_even (x / 2 powi (e - 23)) = k"
    and "\<bar>of_int k * 2 powi (e - 23) :: real\<bar> < 2 powi 128"
  shows "float_round x = Finite (of_int k * 2 powi (e - 23))"
  using assms(5,6) by (simp add: float_round_at [OF assms(1-4)] Let_def)

lemma float_round_infinite_at:
  assumes "- 126 \<le> e" and "e \<le> 127"
    and "- 126 < e \<longrightarrow> 2 powi e \<le> \<bar>x\<bar>" and "e < 127 \<longrightarrow> \<bar>x\<bar> < 2 powi (e + 1)"
    and "round_half_even (x / 2 powi (e - 23)) = k"
    and "2 powi 128 \<le> \<bar>of_int k * 2 powi (e - 23) :: real\<bar>"
  shows "float_round x = Infinity"
  using assms(5,6) by (simp add: float_round_at [OF assms(1-4)] Let_def)

lemma round_cov_small:
  "float_round (1 / 100 * (1 / 2 ^ 46)) = Finite (10737418 / 2 ^ 76)"
proof -
  have "float_round (1 / 100 * (1 / 2 ^ 46)) = Finite (of_int 10737418 * 2 powi (- 53 - 23))"
    by (rule float_round_finite_at) (simp_all add: round_half_even_def Let_def)
  then show ?thesis by simp
qed

lemma round_difference_at_eps:
  "float_round (1 / 2 ^ 60 - 1 / 2 ^ 23) = Finite (- (1 / 2 ^ 23))"
proof -
  have "float_round (1 / 2 ^ 60 - 1 / 2 ^ 23) = Finite (of_int (- 16777216) * 2 powi (- 24 - 23))"
    by (rule float_round_finite_at) (simp_all add: round_half_even_def Let_def)
  then show ?thesis by simp
qed

lemma round_one_minus_tiny:
  "float_round (1 - 1 / 2 ^ 129) = Finite 1" "float_round (1 / 2 ^ 129 - 1) = Finite (- 1)"
proof -
  have "float_round (1 - 1 / 2 ^ 129) = Finite (of_int 16777216 * 2 powi (- 1 - 23))"
    by (rule float_round_finite_at) (simp_all add: round_half_even_def Let_def)
  then show "float_round (1 - 1 / 2 ^ 129) = Finite 1" by simp
  have "float_round (1 / 2 ^ 129 - 1) = Finite (of_int (- 16777216) * 2 powi (- 1 - 23))"
    by (rule float_round_finite_at) (simp_all add: round_half_even_def Let_def)
  then show "float_round (1 / 2 ^ 129 - 1) = Finite (- 1)" by simp
qed

lemma round_underflow: "float_round (1 / 2 ^ 129 * (1 / 2 ^ 129)) = Finite 0"
proof -
  have "float_round (1 / 2 ^ 129 * (1 / 2 ^ 129)) = Finite (of_int 0 * 2 powi (- 126 - 23))"
    by (rule float_round_finite_at) (simp_all add: round_half_even_def Let_def)
  then show ?thesis by simp
qed

lemma round_overflow: "float_round (1 / (1 / 2 ^ 129)) = Infinity"
  by (rule float_round_infinite_at [where e = 127 and k = "2 ^ 25"])
     (simp_all add: round_half_even_def Let_def)

lemma round_half_even_minus: "round_half_even (- m) = - round_half_even m"
proof (cases "m = of_int \<lfloor>m\<rfloor>")
  case True
  then obtain k where k: "m = of_int k" ..
  have "- m = of_int (- k)" by (simp add: k)
  then have "round_half_even (- m) = - k"
    by (simp only: round_half_even_of_int)
  then show ?thesis by (simp add: k round_half_even_of_int)
next
  case False
  have c: "\<lceil>m\<rceil> = \<lfloor>m\<rfloor> + 1"
    using False by (simp add: ceiling_altdef)
  have f: "\<lfloor>- m\<rfloor> = - \<lfloor>m\<rfloor> - 1"
    using c by (simp add: ceiling_def)
  have lo: "0 < m - of_int \<lfloor>m\<rfloor>"
    using False of_int_floor_le [of m] by linarith
  show ?thesis
    unfolding round_half_even_def Let_def f
    using lo by (auto simp: field_simps)
qed

lemma round_half_even_near: "\<bar>of_int (round_half_even m) - m\<bar> \<le> 1 / 2"
proof -
  have "of_int \<lfloor>m\<rfloor> \<le> m" "m < of_int \<lfloor>m\<rfloor> + 1"
    by linarith+
  then show ?thesis
    by (auto simp: round_half_even_def Let_def)
qed

lemma float_exponent_minus: "float_exponent (- x) = float_exponent x"
  by (simp add: float_exponent_def)

lemma float_round_minus:
  "float_round x = Finite d \<Longrightarrow> float_round (- x) = Finite (- d)"
  by (auto simp: float_round_def Let_def float_exponent_minus round_half_even_minus split: if_splits)

text \<open>A result of magnitude at most \<open>2\<^sup>1\<^sup>2\<^sup>7\<close> is rounded to a float within half a unit in the
  last place: a relative error of \<open>2\<^sup>-\<^sup>2\<^sup>4\<close>, or \<open>2\<^sup>-\<^sup>1\<^sup>5\<^sup>0\<close> among the subnormal numbers.\<close>

lemma float_round_error:
  assumes "\<bar>x\<bar> \<le> 2 ^ 127"
  shows "\<exists>y. float_round x = Finite y \<and> \<bar>y - x\<bar> \<le> \<bar>x\<bar> / 2 ^ 24 + 1 / 2 ^ 150"
proof -
  define e where "e = float_exponent x"
  define u :: real where "u = 2 powi (e - 23)"
  define y where "y = of_int (round_half_even (x / u)) * u"
  have up: "0 < u" by (simp add: u_def)
  have er: "- 126 \<le> e" "e \<le> 127"
    using float_exponent_range [of x] by (simp_all add: e_def)
  have "\<bar>of_int (round_half_even (x / u)) - x / u\<bar> \<le> 1 / 2"
    by (rule round_half_even_near)
  then have "\<bar>of_int (round_half_even (x / u)) - x / u\<bar> * u \<le> 1 / 2 * u"
    using up by (intro mult_right_mono) simp_all
  moreover have "\<bar>of_int (round_half_even (x / u)) - x / u\<bar> * u = \<bar>y - x\<bar>"
  proof -
    have "(of_int (round_half_even (x / u)) - x / u) * u = y - x"
      using up by (simp add: y_def left_diff_distrib)
    then have "\<bar>(of_int (round_half_even (x / u)) - x / u) * u\<bar> = \<bar>y - x\<bar>"
      by (simp only:)
    with up show ?thesis by (simp add: abs_mult)
  qed
  ultimately have d: "\<bar>y - x\<bar> \<le> u / 2" by simp
  have h: "u / 2 = 2 powi (e - 24)"
    by (simp add: u_def power_int_diff)
  have b: "u / 2 \<le> \<bar>x\<bar> / 2 ^ 24 + 1 / 2 ^ 150"
  proof (cases "- 126 < e")
    case True
    then have "2 powi e \<le> \<bar>x\<bar>"
      using float_exponent_lower [of x] by (simp add: e_def)
    moreover have "2 powi (e - 24) = 2 powi e / (2 ^ 24 :: real)"
      by (simp add: power_int_diff)
    ultimately have "u / 2 \<le> \<bar>x\<bar> / 2 ^ 24"
      unfolding h by (simp add: divide_right_mono)
    then show ?thesis by simp
  next
    case False
    with er have "e = - 126" by simp
    then have "u / 2 = 1 / 2 ^ 150"
      unfolding h by (simp add: power_int_minus field_simps)
    then show ?thesis by simp
  qed
  have "u \<le> 2 powi (127 - 23)"
    unfolding u_def using er by (intro power_int_increasing) simp_all
  then have ub: "u / 2 \<le> 2 ^ 103" by simp
  have "\<bar>y\<bar> \<le> \<bar>y - x\<bar> + \<bar>x\<bar>" by linarith
  with d ub assms have "\<bar>y\<bar> \<le> 2 ^ 103 + 2 ^ 127" by linarith
  then have "\<bar>y\<bar> < 2 ^ 128" by simp
  then have "float_round x = Finite y"
    by (simp add: float_round_def Let_def e_def [symmetric] u_def [symmetric] y_def [symmetric])
  with d b show ?thesis by auto
qed

lemma round_half_even_ge_half:
  assumes "of_int N - 1 / 2 \<le> m" and "even N"
  shows "N \<le> round_half_even m"
proof -
  let ?f = "\<lfloor>m\<rfloor>"
  from assms(1) have "of_int (N - 1) \<le> m" by simp
  then have f: "N - 1 \<le> ?f" by (simp add: le_floor_iff)
  show ?thesis
  proof (cases "?f = N - 1")
    case True
    with assms(1) have r: "1 / 2 \<le> m - of_int ?f" by simp
    from True assms(2) have "odd ?f" by simp
    with r True show ?thesis
      by (auto simp: round_half_even_def Let_def)
  next
    case False
    with f have "N \<le> ?f" by simp
    then show ?thesis by (simp add: round_half_even_def Let_def)
  qed
qed

text \<open>
  The other side of the threshold: a real of magnitude at least \<open>2\<^sup>-\<^sup>2\<^sup>3 - 2\<^sup>-\<^sup>4\<^sup>8\<close> is rounded to
  a float of magnitude at least \<open>2\<^sup>-\<^sup>2\<^sup>3\<close>.
\<close>

lemma float_round_epsilon_pos:
  assumes x: "FLT_EPSILON - 1 / 2 ^ 48 \<le> x" and d: "float_round x = Finite d"
  shows "FLT_EPSILON \<le> d"
proof -
  define e where "e = float_exponent x"
  define u :: real where "u = 2 powi (e - 23)"
  define k where "k = round_half_even (x / u)"
  have up: "0 < u" by (simp add: u_def)
  from x have xl: "1 / 2 ^ 23 - 1 / 2 ^ 48 \<le> x" by (simp add: FLT_EPSILON_def)
  then have xp: "0 < x" by simp
  from d have dk: "d = of_int k * u"
    by (simp add: float_round_def Let_def e_def u_def k_def split: if_splits)
  have e24: "- 24 \<le> e"
  proof (rule ccontr)
    assume "\<not> - 24 \<le> e"
    then have lt: "e + 1 \<le> - 24" by simp
    then have "e < 127" by simp
    then have "\<bar>x\<bar> < 2 powi (e + 1)"
      unfolding e_def by (rule float_exponent_upper)
    also from lt have "(2::real) powi (e + 1) \<le> 2 powi (- 24)"
      by (intro power_int_increasing) simp_all
    finally have "x < 1 / 2 ^ 24" using xp by (simp add: power_int_minus)
    with xl show False by simp
  qed
  show ?thesis
  proof (cases "e = - 24")
    case True
    then have u47: "u = 1 / 2 ^ 47" by (simp add: u_def power_int_minus)
    from xl have "of_int (2 ^ 24) - 1 / 2 \<le> x / u"
      by (simp add: u47)
    then have "2 ^ 24 \<le> k"
      unfolding k_def by (rule round_half_even_ge_half) simp
    then have "(of_int (2 ^ 24) :: real) \<le> of_int k" by (simp only: of_int_le_iff)
    then have "(2 ^ 24 :: real) \<le> of_int k" by simp
    then have "2 ^ 24 * u \<le> of_int k * u"
      using up by (intro mult_right_mono) simp_all
    then show ?thesis
      by (simp add: dk u47 FLT_EPSILON_def)
  next
    case False
    with e24 have e23: "- 23 \<le> e" by simp
    then have "- 126 < e" by simp
    then have "2 powi e \<le> \<bar>x\<bar>"
      unfolding e_def by (rule float_exponent_lower)
    with xp have le: "2 powi e \<le> x" by simp
    have ue: "2 powi e = 2 ^ 23 * u"
      by (simp add: u_def power_int_diff)
    from le have "2 ^ 23 * u \<le> x" by (simp only: ue)
    then have "of_int (2 ^ 23) \<le> x / u"
      using up by (simp add: field_simps)
    then have "2 ^ 23 \<le> k"
      unfolding k_def by (rule round_half_even_ge)
    then have "(of_int (2 ^ 23) :: real) \<le> of_int k" by (simp only: of_int_le_iff)
    then have "(2 ^ 23 :: real) \<le> of_int k" by simp
    then have "2 ^ 23 * u \<le> of_int k * u"
      using up by (intro mult_right_mono) simp_all
    then have "2 powi e \<le> d" by (simp only: ue dk)
    moreover from e23 have "(2::real) powi (- 23) \<le> 2 powi e"
      by (intro power_int_increasing) simp_all
    ultimately show ?thesis
      by (simp add: FLT_EPSILON_def power_int_minus)
  qed
qed

lemma float_round_not_below_epsilon:
  assumes x: "FLT_EPSILON - 1 / 2 ^ 48 \<le> \<bar>x\<bar>" and d: "float_round x = Finite d"
  shows "FLT_EPSILON \<le> \<bar>d\<bar>"
proof (cases "0 \<le> x")
  case True
  with x have "FLT_EPSILON - 1 / 2 ^ 48 \<le> x" by simp
  from float_round_epsilon_pos [OF this d] show ?thesis by simp
next
  case False
  with x have "FLT_EPSILON - 1 / 2 ^ 48 \<le> - x" by simp
  from float_round_epsilon_pos [OF this float_round_minus [OF d]] show ?thesis by simp
qed

subsection \<open>Rounded scales and their reciprocals\<close>

text \<open>A ratio and its reciprocal, both rounded, multiply to 1 within three half units.\<close>

lemma reciprocal_scales:
  assumes r: "1 / 2 ^ 90 \<le> r" "r \<le> 2 ^ 90"
    and s1: "float_round r = Finite s1" and s2: "float_round (1 / r) = Finite s2"
  shows "\<bar>s1 * s2 - 1\<bar> \<le> 3 / 2 ^ 24" and "\<bar>s1\<bar> \<le> 2 * r" and "\<bar>s2\<bar> \<le> 2 / r"
proof -
  define c :: real where "c = 1 / 2 ^ 24 + 1 / 2 ^ 60"
  define a where "a = s1 / r - 1"
  define b where "b = s2 * r - 1"
  have "(0::real) < 1 / 2 ^ 90" by simp
  with r(1) have rp: "0 < r" by linarith
  from r have ri: "1 / 2 ^ 90 \<le> 1 / r" "1 / r \<le> 2 ^ 90"
    using rp by (simp_all add: field_simps)
  have "\<bar>r\<bar> \<le> 2 ^ 127"
    using r rp by simp
  from float_round_error [OF this] s1 have e1: "\<bar>s1 - r\<bar> \<le> \<bar>r\<bar> / 2 ^ 24 + 1 / 2 ^ 150"
    by auto
  have "\<bar>1 / r\<bar> \<le> 2 ^ 127"
    using ri rp by simp
  from float_round_error [OF this] s2 have e2: "\<bar>s2 - 1 / r\<bar> \<le> \<bar>1 / r\<bar> / 2 ^ 24 + 1 / 2 ^ 150"
    by auto
  have t1: "(1 / 2 ^ 150 :: real) \<le> r / 2 ^ 60"
    using r(1) by (simp add: field_simps)
  have t2: "(1 / 2 ^ 150 :: real) \<le> (1 / r) / 2 ^ 60"
    using ri(1) by (simp add: field_simps)
  have "r * c = r / 2 ^ 24 + r / 2 ^ 60"
    by (simp add: c_def distrib_left)
  moreover have "\<bar>r\<bar> = r" using rp by simp
  ultimately have d1: "\<bar>s1 - r\<bar> \<le> r * c"
    using e1 t1 by linarith
  have "(1 / r) * c = (1 / r) / 2 ^ 24 + (1 / r) / 2 ^ 60"
    by (simp add: c_def distrib_left)
  moreover have "\<bar>1 / r\<bar> = 1 / r" using rp by simp
  ultimately have d2: "\<bar>s2 - 1 / r\<bar> \<le> (1 / r) * c"
    using e2 t2 by linarith
  have "a = (s1 - r) / r"
    using rp by (simp add: a_def field_simps)
  then have "\<bar>a\<bar> = \<bar>s1 - r\<bar> / r"
    using rp by (simp add: abs_divide)
  also have "\<dots> \<le> (r * c) / r"
    using d1 rp by (intro divide_right_mono) simp_all
  finally have a: "\<bar>a\<bar> \<le> c"
    using rp by simp
  have "b = (s2 - 1 / r) * r"
    using rp by (simp add: b_def field_simps)
  then have "\<bar>b\<bar> = \<bar>s2 - 1 / r\<bar> * r"
    using rp by (simp add: abs_mult)
  also have "\<dots> \<le> ((1 / r) * c) * r"
    using d2 rp by (intro mult_right_mono) simp_all
  finally have b: "\<bar>b\<bar> \<le> c"
    using rp by simp
  have cp: "0 \<le> c" by (simp add: c_def)
  have s1e: "s1 = r * (1 + a)"
    using rp by (simp add: a_def field_simps)
  have s2e: "s2 = (1 + b) / r"
    using rp by (simp add: b_def field_simps)
  have "s1 * s2 = (1 + a) * (1 + b)"
    using rp by (simp add: s1e s2e)
  then have "s1 * s2 - 1 = a + b + a * b"
    by (simp add: algebra_simps)
  moreover have "\<bar>a + b + a * b\<bar> \<le> \<bar>a\<bar> + \<bar>b\<bar> + \<bar>a\<bar> * \<bar>b\<bar>"
    using abs_triangle_ineq [of "a + b" "a * b"] abs_triangle_ineq [of a b]
    by (simp add: abs_mult)
  moreover have "\<bar>a\<bar> * \<bar>b\<bar> \<le> c * c"
    using a b cp by (intro mult_mono) simp_all
  moreover have "c + c + c * c \<le> 3 / 2 ^ 24"
    by (simp add: c_def)
  ultimately show "\<bar>s1 * s2 - 1\<bar> \<le> 3 / 2 ^ 24"
    using a b by linarith
  have c1: "c \<le> 1" by (simp add: c_def)
  have "\<bar>s1\<bar> \<le> \<bar>s1 - r\<bar> + r" using rp by linarith
  also have "\<dots> \<le> r * c + r" using d1 by simp
  also have "\<dots> \<le> r * 1 + r"
    using c1 rp by (intro add_right_mono mult_left_mono) simp_all
  finally show "\<bar>s1\<bar> \<le> 2 * r" by simp
  have "0 < 1 / r" using rp by simp
  then have "\<bar>s2\<bar> \<le> \<bar>s2 - 1 / r\<bar> + 1 / r" by linarith
  also have "\<dots> \<le> (1 / r) * c + 1 / r" using d2 by simp
  also have "\<dots> \<le> (1 / r) * 1 + 1 / r"
    using c1 rp by (intro add_right_mono mult_left_mono) simp_all
  finally show "\<bar>s2\<bar> \<le> 2 / r" by simp
qed

text \<open>An entry multiplied by a rounded scale and then by the rounded reciprocal scale: both
  products are finite and the entry comes back within seven half units in the last place,
  or within the spacing of the subnormal numbers times the second scale.\<close>

lemma sum_of_bounds:
  fixes X T :: real
  shows "A \<le> X * 2 / 2 ^ 24 + T \<Longrightarrow> B \<le> X * 3 / 2 ^ 24 \<Longrightarrow> C \<le> B + A \<Longrightarrow> C \<le> X * 5 / 2 ^ 24 + T"
  by simp

lemma abs_via_difference: "\<bar>a\<bar> \<le> \<bar>a - b\<bar> + \<bar>b :: real\<bar>"
  by linarith

lemma product_bound:
  fixes X T :: real
  shows "M \<le> X * 5 / 2 ^ 24 + T \<Longrightarrow> 0 \<le> X \<Longrightarrow> N \<le> M + X \<Longrightarrow> N \<le> 2 * X + T"
  by simp

lemma product_finite_bound:
  fixes X T :: real
  shows "T \<le> 1 \<Longrightarrow> X \<le> 2 ^ 100 \<Longrightarrow> N \<le> 2 * X + T \<Longrightarrow> N \<le> 2 * 2 ^ 100 + 1"
  by simp

lemma abs_difference_via: "\<bar>a - c\<bar> \<le> \<bar>a - b\<bar> + \<bar>b - c :: real\<bar>"
  by linarith

lemma total_bound:
  fixes X T :: real
  shows "E \<le> N / 2 ^ 24 + 1 / 2 ^ 150 \<Longrightarrow> N / 2 ^ 24 \<le> 2 * X / 2 ^ 24 + T \<Longrightarrow>
    M \<le> X * 5 / 2 ^ 24 + T \<Longrightarrow> R \<le> E + M \<Longrightarrow> R \<le> 7 * X / 2 ^ 24 + (2 * T + 1 / 2 ^ 150)"
  by simp

lemma entry_round_trip:
  assumes p: "\<bar>s1 * s2 - 1\<bar> \<le> 3 / 2 ^ 24"
    and x: "\<bar>x\<bar> \<le> 2 ^ 100" and xs: "\<bar>x * s1\<bar> \<le> 2 ^ 127" and s: "\<bar>s2\<bar> \<le> 2 ^ 100"
  shows "\<exists>x1 x2. float_round (x * s1) = Finite x1 \<and> float_round (x1 * s2) = Finite x2 \<and>
           \<bar>x2 - x\<bar> \<le> 7 * \<bar>x\<bar> / 2 ^ 24 + (2 * \<bar>s2\<bar> + 1) / 2 ^ 150"
proof -
  define X where "X = \<bar>x\<bar>"
  define S where "S = \<bar>s2\<bar>"
  define T where "T = S / 2 ^ 150"
  have X0: "0 \<le> X" and S0: "0 \<le> S" and T0: "0 \<le> T"
    by (simp_all add: X_def S_def T_def)
  from float_round_error [OF xs] obtain x1
    where x1: "float_round (x * s1) = Finite x1"
      and e1: "\<bar>x1 - x * s1\<bar> \<le> \<bar>x * s1\<bar> / 2 ^ 24 + 1 / 2 ^ 150"
    by blast
  have "(3 / 2 ^ 24 :: real) \<le> 1" by simp
  with p have ps: "\<bar>s1 * s2\<bar> \<le> 2" by linarith
  have xp: "\<bar>x * s1\<bar> * S = X * \<bar>s1 * s2\<bar>"
    by (simp add: X_def S_def abs_mult)
  have "\<bar>(x1 - x * s1) * s2\<bar> = \<bar>x1 - x * s1\<bar> * S"
    by (simp add: S_def abs_mult)
  also have "\<dots> \<le> (\<bar>x * s1\<bar> / 2 ^ 24 + 1 / 2 ^ 150) * S"
    using e1 S0 by (intro mult_right_mono)
  also have "\<dots> = \<bar>x * s1\<bar> * S / 2 ^ 24 + T"
    by (simp add: distrib_right T_def)
  also have "\<dots> = X * \<bar>s1 * s2\<bar> / 2 ^ 24 + T"
    by (simp only: xp)
  also have "\<dots> \<le> X * 2 / 2 ^ 24 + T"
    using ps X0 by (intro add_right_mono divide_right_mono mult_left_mono) simp_all
  finally have a: "\<bar>(x1 - x * s1) * s2\<bar> \<le> X * 2 / 2 ^ 24 + T" .
  have "\<bar>x * (s1 * s2 - 1)\<bar> = X * \<bar>s1 * s2 - 1\<bar>"
    by (simp add: X_def abs_mult)
  also have "\<dots> \<le> X * (3 / 2 ^ 24)"
    using p X0 by (intro mult_left_mono)
  finally have b: "\<bar>x * (s1 * s2 - 1)\<bar> \<le> X * 3 / 2 ^ 24" by simp
  have d: "x1 * s2 - x = x * (s1 * s2 - 1) + (x1 - x * s1) * s2"
    by (simp add: algebra_simps)
  have "\<bar>x1 * s2 - x\<bar> \<le> \<bar>x * (s1 * s2 - 1)\<bar> + \<bar>(x1 - x * s1) * s2\<bar>"
    unfolding d by (rule abs_triangle_ineq)
  with a b have m: "\<bar>x1 * s2 - x\<bar> \<le> X * 5 / 2 ^ 24 + T"
    by (rule sum_of_bounds)
  have "\<bar>x1 * s2\<bar> \<le> \<bar>x1 * s2 - x\<bar> + X"
    unfolding X_def by (rule abs_via_difference)
  with m X0 have n: "\<bar>x1 * s2\<bar> \<le> 2 * X + T"
    by (rule product_bound)
  have "T \<le> 2 ^ 100 / 2 ^ 150"
    unfolding T_def using s by (intro divide_right_mono) (simp_all add: S_def)
  then have "T \<le> 1" by simp
  moreover have "X \<le> 2 ^ 100" using x by (simp add: X_def)
  ultimately have "\<bar>x1 * s2\<bar> \<le> 2 * 2 ^ 100 + 1"
    using n by (rule product_finite_bound)
  then have "\<bar>x1 * s2\<bar> \<le> 2 ^ 127" by simp
  from float_round_error [OF this] obtain x2
    where x2: "float_round (x1 * s2) = Finite x2"
      and e2: "\<bar>x2 - x1 * s2\<bar> \<le> \<bar>x1 * s2\<bar> / 2 ^ 24 + 1 / 2 ^ 150"
    by blast
  have "\<bar>x1 * s2\<bar> / 2 ^ 24 \<le> (2 * X + T) / 2 ^ 24"
    using n by (intro divide_right_mono) simp_all
  also have "\<dots> = 2 * X / 2 ^ 24 + T / 2 ^ 24"
    by (rule add_divide_distrib)
  also have "\<dots> \<le> 2 * X / 2 ^ 24 + T"
    using T0 by simp
  finally have q: "\<bar>x1 * s2\<bar> / 2 ^ 24 \<le> 2 * X / 2 ^ 24 + T" .
  have "\<bar>x2 - x\<bar> \<le> \<bar>x2 - x1 * s2\<bar> + \<bar>x1 * s2 - x\<bar>" by (rule abs_difference_via)
  with e2 q m have "\<bar>x2 - x\<bar> \<le> 7 * X / 2 ^ 24 + (2 * T + 1 / 2 ^ 150)"
    by (rule total_bound)
  also have "2 * T + 1 / 2 ^ 150 = (2 * S + 1) / 2 ^ 150"
    by (simp add: T_def add_divide_distrib)
  finally have "\<bar>x2 - x\<bar> \<le> 7 * \<bar>x\<bar> / 2 ^ 24 + (2 * \<bar>s2\<bar> + 1) / 2 ^ 150"
    by (simp only: X_def S_def)
  with x1 x2 show ?thesis by blast
qed

lemma ratio_bounds:
  fixes a b :: real
  assumes "0 < L" and "L \<le> a" and "a \<le> U" and "L \<le> b" and "b \<le> U"
  shows "L / U \<le> a / b" and "a / b \<le> U / L"
proof -
  from assms have "0 < b" "0 \<le> a" "0 \<le> L" by simp_all
  with assms show "L / U \<le> a / b" by (intro frac_le) simp_all
  from assms \<open>0 \<le> a\<close> show "a / b \<le> U / L" by (intro frac_le) simp_all
qed

lemma float_round_finite: "\<bar>x\<bar> \<le> 2 ^ 127 \<Longrightarrow> \<exists>y. float_round x = Finite y"
  using float_round_error [of x] by blast

lemma square_round:
  assumes "1 / 2 ^ 20 \<le> n" and "n \<le> 2 ^ 20"
  shows "\<exists>q. float_round (n * n) = Finite q \<and> 1 / 2 ^ 41 \<le> q \<and> q \<le> 2 ^ 41"
proof -
  have "(0::real) < 1 / 2 ^ 20" by simp
  with assms(1) have np: "0 < n" by linarith
  from assms np have "n * n \<le> 2 ^ 20 * 2 ^ 20"
    by (intro mult_mono) simp_all
  then have up: "n * n \<le> 2 ^ 40" by simp
  from assms have "1 / 2 ^ 20 * (1 / 2 ^ 20) \<le> n * n"
    by (intro mult_mono) simp_all
  then have lo: "1 / 2 ^ 40 \<le> n * n" by simp
  from up lo have "\<bar>n * n\<bar> \<le> 2 ^ 127" by simp
  from float_round_error [OF this] obtain q
    where q: "float_round (n * n) = Finite q"
      and e: "\<bar>q - n * n\<bar> \<le> \<bar>n * n\<bar> / 2 ^ 24 + 1 / 2 ^ 150"
    by blast
  define m where "m = n * n"
  from lo have mp: "\<bar>m\<bar> = m" by (simp add: m_def)
  from e have e': "\<bar>q - m\<bar> \<le> m / 2 ^ 24 + 1 / 2 ^ 150"
    by (simp add: m_def [symmetric] mp)
  from up lo have b: "m \<le> 2 ^ 40" "1 / 2 ^ 40 \<le> m"
    by (simp_all add: m_def)
  from e' b have "1 / 2 ^ 41 \<le> q" by simp
  moreover from e' b have "q \<le> 2 ^ 41" by simp
  ultimately show ?thesis using q by blast
qed

lemma tolerance_bound:
  fixes X S :: real
  assumes "R \<le> 7 * X / 2 ^ 24 + (2 * S + 1) / 2 ^ 150" and "S \<le> 2 ^ 41" and "0 \<le> X"
  shows "R \<le> 4 * FLT_EPSILON * X + 1 / 2 ^ 100"
proof -
  have "(2 * S + 1) / 2 ^ 150 \<le> (2 * 2 ^ 41 + 1) / 2 ^ 150"
    using assms(2) by (intro divide_right_mono) simp_all
  also have "\<dots> \<le> 1 / 2 ^ 100" by simp
  finally have "(2 * S + 1) / 2 ^ 150 \<le> 1 / 2 ^ 100" .
  moreover have "7 * X / 2 ^ 24 \<le> 4 * FLT_EPSILON * X"
    using assms(3) by (simp add: FLT_EPSILON_def)
  ultimately show ?thesis using assms(1) by linarith
qed

text \<open>
  The round trip in single precision, for norms between \<open>2\<^sup>-\<^sup>2\<^sup>0\<close> and \<open>2\<^sup>2\<^sup>0\<close> and entries of
  magnitude at most \<open>2\<^sup>2\<^sup>0\<close>: both calls store finite values, and every entry of the
  error state comes back within four \<open>FLT_EPSILON\<close>, relatively, of what it was.
\<close>

lemma norm_set_round_trip_single:
  assumes wf: "wf_instance inst"
    and f: "1 / 2 ^ 20 \<le> field_norm inst" "field_norm inst \<le> 2 ^ 20"
    and n: "1 / 2 ^ 20 \<le> n1" "n1 \<le> 2 ^ 20"
    and st: "\<forall>x\<in>set (state inst). \<bar>x\<bar> \<le> 2 ^ 20"
    and cv: "\<forall>x\<in>set (state_covariance inst). \<bar>x\<bar> \<le> 2 ^ 20"
  shows "\<exists>i1 i2. TRICAL_norm_set inst n1 = Inr i1 \<and>
            TRICAL_norm_set i1 (field_norm inst) = Inr i2 \<and>
            field_norm i2 = field_norm inst \<and>
            (\<forall>k<9. \<bar>state i2 ! k - state inst ! k\<bar>
                     \<le> 4 * FLT_EPSILON * \<bar>state inst ! k\<bar> + 1 / 2 ^ 100)"
proof -
  define f0 where "f0 = field_norm inst"
  have pw: "(0::real) < 1 / 2 ^ 20" by simp
  from f pw have fp: "0 < f0" unfolding f0_def by linarith
  from n pw have np: "0 < n1" by linarith
  from f have fb: "1 / 2 ^ 20 \<le> f0" "f0 \<le> 2 ^ 20" by (simp_all add: f0_def)
  from fb n have "\<bar>n1 - f0\<bar> \<le> 2 ^ 127" by simp
  from float_round_finite [OF this] obtain d where d: "float_round (n1 - f0) = Finite d" ..
  show ?thesis
  proof (cases "\<bar>d\<bar> < FLT_EPSILON")
    case True
    have one: "TRICAL_norm_set inst n1 = Inr inst"
      unfolding TRICAL_norm_set_def using np d True
      by (intro norm_set_with_noop [where d = d]) (simp_all add: f0_def)
    have two: "TRICAL_norm_set inst (field_norm inst) = Inr inst"
      unfolding TRICAL_norm_set_def using fp
      by (intro norm_set_with_noop [where d = 0]) (simp_all add: float_round_zero FLT_EPSILON_def f0_def)
    have "\<forall>k<9. \<bar>state inst ! k - state inst ! k\<bar>
                     \<le> 4 * FLT_EPSILON * \<bar>state inst ! k\<bar> + 1 / 2 ^ 100"
      by (simp add: FLT_EPSILON_def)
    with one two show ?thesis by blast
  next
    case False
    define r where "r = n1 / f0"
    have ri: "1 / r = f0 / n1" by (simp add: r_def)
    from ratio_bounds [OF pw n fb] have rb: "1 / 2 ^ 40 \<le> r" "r \<le> 2 ^ 40"
      by (simp_all add: r_def)
    then have rb': "1 / 2 ^ 90 \<le> r" "r \<le> 2 ^ 90" by simp_all
    have "(0::real) < 1 / 2 ^ 40" by simp
    with rb have rp: "0 < r" by linarith
    from rb rp have "\<bar>r\<bar> \<le> 2 ^ 127" by simp
    from float_round_finite [OF this] obtain s1 where s1: "float_round r = Finite s1" ..
    from rb rp have "1 / r \<le> 2 ^ 40" by (simp add: field_simps)
    with rp have "\<bar>1 / r\<bar> \<le> 2 ^ 127" by simp
    from float_round_finite [OF this] obtain s2 where s2: "float_round (1 / r) = Finite s2" ..
    note sc = reciprocal_scales [OF rb' s1 s2]
    from sc(2) rb have s1b: "\<bar>s1\<bar> \<le> 2 ^ 41" by simp
    from rb rp have "2 / r \<le> 2 ^ 41" by (simp add: field_simps)
    with sc(3) have s2b: "\<bar>s2\<bar> \<le> 2 ^ 41" by linarith
    from square_round [OF n] obtain q1
      where q1: "float_round (n1 * n1) = Finite q1" "1 / 2 ^ 41 \<le> q1" "q1 \<le> 2 ^ 41" by blast
    from square_round [OF fb] obtain q0
      where q0: "float_round (f0 * f0) = Finite q0" "1 / 2 ^ 41 \<le> q0" "q0 \<le> 2 ^ 41" by blast
    have pq: "(0::real) < 1 / 2 ^ 41" by simp
    with q0 q1 have qp: "0 < q0" "0 < q1" by linarith+
    define rq where "rq = q1 / q0"
    have rqi: "1 / rq = q0 / q1" by (simp add: rq_def)
    from ratio_bounds [OF pq q1(2,3) q0(2,3)] have qb: "1 / 2 ^ 82 \<le> rq" "rq \<le> 2 ^ 82"
      by (simp_all add: rq_def)
    then have qb': "1 / 2 ^ 90 \<le> rq" "rq \<le> 2 ^ 90" by simp_all
    have "(0::real) < 1 / 2 ^ 82" by simp
    with qb have rqp: "0 < rq" by linarith
    from qb rqp have "\<bar>rq\<bar> \<le> 2 ^ 127" by simp
    from float_round_finite [OF this] obtain t1 where t1: "float_round rq = Finite t1" ..
    from qb rqp have "1 / rq \<le> 2 ^ 82" by (simp add: field_simps)
    with rqp have "\<bar>1 / rq\<bar> \<le> 2 ^ 127" by simp
    from float_round_finite [OF this] obtain t2 where t2: "float_round (1 / rq) = Finite t2" ..
    note tc = reciprocal_scales [OF qb' t1 t2]
    from tc(2) qb have t1b: "\<bar>t1\<bar> \<le> 2 ^ 83" by simp
    from qb rqp have "2 / rq \<le> 2 ^ 83" by (simp add: field_simps)
    with tc(3) have t2b: "\<bar>t2\<bar> \<le> 2 ^ 83" by linarith
    define g1 where "g1 = (\<lambda>x. case float_round (x * s1) of Finite z \<Rightarrow> z | Infinity \<Rightarrow> 0 | NaN \<Rightarrow> 0)"
    define g2 where "g2 = (\<lambda>x. case float_round (x * s2) of Finite z \<Rightarrow> z | Infinity \<Rightarrow> 0 | NaN \<Rightarrow> 0)"
    define c1 where "c1 = (\<lambda>x. case float_round (x * t1) of Finite z \<Rightarrow> z | Infinity \<Rightarrow> 0 | NaN \<Rightarrow> 0)"
    define c2 where "c2 = (\<lambda>x. case float_round (x * t2) of Finite z \<Rightarrow> z | Infinity \<Rightarrow> 0 | NaN \<Rightarrow> 0)"
    have se: "float_round (x * s1) = Finite (g1 x) \<and> float_round (g1 x * s2) = Finite (g2 (g1 x)) \<and>
        \<bar>g2 (g1 x) - x\<bar> \<le> 4 * FLT_EPSILON * \<bar>x\<bar> + 1 / 2 ^ 100"
      if x: "\<bar>x\<bar> \<le> 2 ^ 20" for x
    proof -
      from x have a: "\<bar>x\<bar> \<le> 2 ^ 100" by simp
      have "\<bar>x * s1\<bar> = \<bar>x\<bar> * \<bar>s1\<bar>" by (simp add: abs_mult)
      also have "\<dots> \<le> 2 ^ 20 * 2 ^ 41" using x s1b by (intro mult_mono) simp_all
      finally have b: "\<bar>x * s1\<bar> \<le> 2 ^ 127" by simp
      from s2b have c: "\<bar>s2\<bar> \<le> 2 ^ 100" by simp
      from entry_round_trip [OF sc(1) a b c] obtain x1 x2
        where "float_round (x * s1) = Finite x1" "float_round (x1 * s2) = Finite x2"
          and e: "\<bar>x2 - x\<bar> \<le> 7 * \<bar>x\<bar> / 2 ^ 24 + (2 * \<bar>s2\<bar> + 1) / 2 ^ 150"
        by blast
      then have "float_round (x * s1) = Finite (g1 x)" "float_round (g1 x * s2) = Finite (g2 (g1 x))"
        "g2 (g1 x) = x2"
        by (simp_all add: g1_def g2_def)
      with tolerance_bound [OF e s2b] show ?thesis by simp
    qed
    have ce: "float_round (x * t1) = Finite (c1 x) \<and> float_round (c1 x * t2) = Finite (c2 (c1 x))"
      if x: "\<bar>x\<bar> \<le> 2 ^ 20" for x
    proof -
      from x have a: "\<bar>x\<bar> \<le> 2 ^ 100" by simp
      have "\<bar>x * t1\<bar> = \<bar>x\<bar> * \<bar>t1\<bar>" by (simp add: abs_mult)
      also have "\<dots> \<le> 2 ^ 20 * 2 ^ 83" using x t1b by (intro mult_mono) simp_all
      finally have b: "\<bar>x * t1\<bar> \<le> 2 ^ 127" by simp
      from t2b have c: "\<bar>t2\<bar> \<le> 2 ^ 100" by simp
      from entry_round_trip [OF tc(1) a b c] obtain x1 x2
        where "float_round (x * t1) = Finite x1" "float_round (x1 * t2) = Finite x2"
        by blast
      then show ?thesis
        by (simp add: c1_def c2_def)
    qed
    have dv1: "float_div float_round (Finite n1) (Finite (field_norm inst)) = Finite s1"
      using fp s1 by (simp add: r_def f0_def)
    have dq1: "float_div float_round (float_mul float_round (Finite n1) (Finite n1))
        (float_mul float_round (Finite (field_norm inst)) (Finite (field_norm inst))) = Finite t1"
      using q0 q1 qp t1 by (simp add: rq_def f0_def [symmetric])
    define i1 where "i1 = inst\<lparr>state := map g1 (state inst),
        state_covariance := map c1 (state_covariance inst), field_norm := n1\<rparr>"
    have one: "TRICAL_norm_set inst n1 = Inr i1"
      unfolding TRICAL_norm_set_def i1_def
    proof (rule norm_set_with_rescale [where rnd = float_round and d = d, OF wf np _ False])
      show "float_round (n1 - field_norm inst) = Finite d"
        using d by (simp add: f0_def)
      show "\<forall>x\<in>set (state inst). float_mul float_round (Finite x)
          (float_div float_round (Finite n1) (Finite (field_norm inst))) = Finite (g1 x)"
        unfolding dv1 using st se by simp
      show "\<forall>x\<in>set (state_covariance inst). float_mul float_round (Finite x)
          (float_div float_round (float_mul float_round (Finite n1) (Finite n1))
            (float_mul float_round (Finite (field_norm inst)) (Finite (field_norm inst)))) = Finite (c1 x)"
        unfolding dq1 using cv ce by simp
    qed
    from wf have wf1: "wf_instance i1"
      by (simp add: wf_instance_def i1_def)
    have i1f: "field_norm i1 = n1" "state i1 = map g1 (state inst)"
      "state_covariance i1 = map c1 (state_covariance inst)"
      by (simp_all add: i1_def)
    have "f0 - n1 = - (n1 - f0)" by simp
    with float_round_minus [OF d] have d2: "float_round (f0 - field_norm i1) = Finite (- d)"
      by (simp only: i1f)
    from False have far2: "\<not> \<bar>- d\<bar> < FLT_EPSILON" by simp
    have dv2: "float_div float_round (Finite f0) (Finite (field_norm i1)) = Finite s2"
      using np s2 by (simp add: ri i1f)
    have dq2: "float_div float_round (float_mul float_round (Finite f0) (Finite f0))
        (float_mul float_round (Finite (field_norm i1)) (Finite (field_norm i1))) = Finite t2"
      using q0 q1 qp t2 by (simp add: rqi i1f)
    define i2 where "i2 = i1\<lparr>state := map g2 (state i1),
        state_covariance := map c2 (state_covariance i1), field_norm := f0\<rparr>"
    have two: "TRICAL_norm_set i1 f0 = Inr i2"
      unfolding TRICAL_norm_set_def i2_def
    proof (rule norm_set_with_rescale [where rnd = float_round and d = "- d", OF wf1 fp d2 far2])
      show "\<forall>x\<in>set (state i1). float_mul float_round (Finite x)
          (float_div float_round (Finite f0) (Finite (field_norm i1))) = Finite (g2 x)"
        unfolding dv2 using st se by (auto simp: i1f)
      show "\<forall>x\<in>set (state_covariance i1). float_mul float_round (Finite x)
          (float_div float_round (float_mul float_round (Finite f0) (Finite f0))
            (float_mul float_round (Finite (field_norm i1)) (Finite (field_norm i1)))) = Finite (c2 x)"
        unfolding dq2 using cv ce by (auto simp: i1f)
    qed
    from wf have len: "length (state inst) = 9"
      by (simp add: wf_instance_def)
    have "\<bar>state i2 ! k - state inst ! k\<bar> \<le> 4 * FLT_EPSILON * \<bar>state inst ! k\<bar> + 1 / 2 ^ 100"
      if "k < 9" for k
    proof -
      from that len have m: "state inst ! k \<in> set (state inst)" by simp
      from that len have "state i2 ! k = g2 (g1 (state inst ! k))"
        by (simp add: i2_def i1f)
      with se [of "state inst ! k"] st m show ?thesis by simp
    qed
    moreover have "field_norm i2 = field_norm inst"
      by (simp add: i2_def f0_def)
    ultimately show ?thesis
      using one two by (auto simp: f0_def)
  qed
qed

subsection \<open>Traces of the single-precision function\<close>

text \<open>A single-precision call past the early return, from the values of its roundings.\<close>

lemma norm_set_rescale_at:
  assumes wf: "wf_instance inst" and pos: "0 < nrm" and fz: "field_norm inst \<noteq> 0"
    and d: "float_round (nrm - field_norm inst) = Finite d" "\<not> \<bar>d\<bar> < FLT_EPSILON"
    and s: "float_round (nrm / field_norm inst) = Finite s"
    and q1: "float_round (nrm * nrm) = Finite q1"
    and q0: "float_round (field_norm inst * field_norm inst) = Finite q0" "q0 \<noteq> 0"
    and t: "float_round (q1 / q0) = Finite t"
    and st: "\<forall>x\<in>set (state inst). float_round (x * s) = Finite (g x)"
    and cv: "\<forall>x\<in>set (state_covariance inst). float_round (x * t) = Finite (g2 x)"
  shows "TRICAL_norm_set inst nrm =
    Inr (inst\<lparr>state := map g (state inst),
              state_covariance := map g2 (state_covariance inst),
              field_norm := nrm\<rparr>)"
  unfolding TRICAL_norm_set_def
proof (rule norm_set_with_rescale [where rnd = float_round and d = d, OF wf pos d])
  show "\<forall>x\<in>set (state inst). float_mul float_round (Finite x)
      (float_div float_round (Finite nrm) (Finite (field_norm inst))) = Finite (g x)"
    using fz s st by simp
  show "\<forall>x\<in>set (state_covariance inst). float_mul float_round (Finite x)
      (float_div float_round (float_mul float_round (Finite nrm) (Finite nrm))
        (float_mul float_round (Finite (field_norm inst)) (Finite (field_norm inst)))) = Finite (g2 x)"
    using q1 q0 t cv by simp
qed

lemma round_more:
  "float_round 2 = Finite 2"
  "float_round 4 = Finite 4"
  using float_round_pow2 [of 1] float_round_pow2 [of 2] by simp_all

lemma round_cov_four: "float_round (1 / 100 * 4) = Finite (10737418 / 2 ^ 28)"
proof -
  have "float_round (1 / 100 * 4) = Finite (of_int 10737418 * 2 powi (- 5 - 23))"
    by (rule float_round_finite_at) (simp_all add: round_half_even_def Let_def)
  then show ?thesis by simp
qed

lemma cx_cov: "set (state_covariance cx_instance) \<subseteq> {0, 1 / 100}"
  using init_cov_set [of memset_zero] by (simp add: cx_instance_def)

lemma cx_norm_set_single:
  "TRICAL_norm_set cx_instance 2 =
    Inr (cx_instance\<lparr>state := [0, 0, 0, 2, 0, 0, 2, 0, 2],
              state_covariance := map (\<lambda>x. if x = 0 then 0 else 10737418 / 2 ^ 28)
                                    (state_covariance cx_instance),
              field_norm := 2\<rparr>)"
proof -
  have "TRICAL_norm_set cx_instance 2 =
    Inr (cx_instance\<lparr>state := map (\<lambda>x. x * 2) (state cx_instance),
              state_covariance := map (\<lambda>x. if x = 0 then 0 else 10737418 / 2 ^ 28)
                                    (state_covariance cx_instance),
              field_norm := 2\<rparr>)"
  proof (rule norm_set_rescale_at [where d = 1 and s = 2 and ?q1.0 = 4 and ?q0.0 = 1 and t = 4])
    show "wf_instance cx_instance" by (rule cx_wf)
    show "field_norm cx_instance \<noteq> 0" by (simp add: cx_field_norm)
    show "float_round (2 - field_norm cx_instance) = Finite 1"
      using round_representable(2) by (simp add: cx_field_norm)
    show "\<not> \<bar>1::real\<bar> < FLT_EPSILON" by (simp add: FLT_EPSILON_def)
    show "float_round (2 / field_norm cx_instance) = Finite 2"
      using round_more(1) by (simp add: cx_field_norm)
    show "float_round (2 * 2) = Finite 4"
      using round_more(2) by simp
    show "float_round (field_norm cx_instance * field_norm cx_instance) = Finite 1"
      using round_representable(2) by (simp add: cx_field_norm)
    show "float_round (4 / 1) = Finite 4"
      using round_more(2) by simp
    show "\<forall>x\<in>set (state cx_instance). float_round (x * 2) = Finite (x * 2)"
      using round_representable(1) round_more(1) by (simp add: cx_state)
    have "float_round (0 * 4) = Finite 0"
      using round_representable(1) by simp
    moreover have "float_round (1 / 100 * 4) = Finite (10737418 / 2 ^ 28)"
      by (rule round_cov_four)
    ultimately show "\<forall>x\<in>set (state_covariance cx_instance).
        float_round (x * 4) = Finite (if x = 0 then 0 else 10737418 / 2 ^ 28)"
      using cx_cov by auto
  qed simp_all
  then show ?thesis by (simp add: cx_state)
qed

lemma init_state_set: "set (state (TRICAL_init inst)) \<subseteq> {0}"
  by (simp add: init_simps)

lemma eps_simps:
  "field_norm eps_instance = 1 / 2 ^ 23"
  "state eps_instance = replicate 9 0"
  "state_covariance eps_instance =
     map (\<lambda>x. if x = 0 then 0 else 10737418 / 2 ^ 76) (state_covariance (TRICAL_init memset_zero))"
  by (simp_all add: eps_instance_def init_simps)

lemma eps_wf: "wf_instance eps_instance"
  using init_wf [of memset_zero] by (simp add: eps_instance_def wf_instance_def)

lemma eps_cov: "set (state_covariance eps_instance) \<subseteq> {0, 10737418 / 2 ^ 76}"
  by (auto simp: eps_simps)

lemma eps_cov_first: "state_covariance eps_instance ! 0 = 10737418 / 2 ^ 76"
proof -
  have "state_covariance (TRICAL_init memset_zero) ! 0 = 1 / 100"
    using init_cov_loop_nth [of 0] by (simp add: init_simps)
  moreover have "0 < length (state_covariance (TRICAL_init memset_zero))"
    using init_wf [of memset_zero] by (simp add: wf_instance_def)
  ultimately show ?thesis by (simp add: eps_simps)
qed

text \<open>From initialisation to norm \<open>2\<^sup>-\<^sup>2\<^sup>3\<close>.\<close>

lemma init_norm_set_eps:
  "TRICAL_norm_set (TRICAL_init memset_zero) (1 / 2 ^ 23) = Inr eps_instance"
proof -
  let ?I = "TRICAL_init memset_zero"
  have "TRICAL_norm_set ?I (1 / 2 ^ 23) =
    Inr (?I\<lparr>state := map (\<lambda>x. x) (state ?I),
              state_covariance := map (\<lambda>x. if x = 0 then 0 else 10737418 / 2 ^ 76) (state_covariance ?I),
              field_norm := 1 / 2 ^ 23\<rparr>)"
  proof (rule norm_set_rescale_at [where d = "1 / 2 ^ 23 - 1" and s = "1 / 2 ^ 23"
        and ?q1.0 = "1 / 2 ^ 46" and ?q0.0 = 1 and t = "1 / 2 ^ 46"])
    show "wf_instance ?I" by (rule init_wf)
    show "field_norm ?I \<noteq> 0" by (simp add: init_simps)
    show "float_round (1 / 2 ^ 23 - field_norm ?I) = Finite (1 / 2 ^ 23 - 1)"
      using round_to_eps_minus_one by (simp add: init_simps)
    show "\<not> \<bar>1 / 2 ^ 23 - 1 :: real\<bar> < FLT_EPSILON" by (simp add: FLT_EPSILON_def)
    show "float_round (1 / 2 ^ 23 / field_norm ?I) = Finite (1 / 2 ^ 23)"
      using round_representable(3) by (simp add: init_simps)
    show "float_round (1 / 2 ^ 23 * (1 / 2 ^ 23)) = Finite (1 / 2 ^ 46)"
      using round_representable(5) by simp
    show "float_round (field_norm ?I * field_norm ?I) = Finite 1"
      using round_representable(2) by (simp add: init_simps)
    show "float_round (1 / 2 ^ 46 / 1) = Finite (1 / 2 ^ 46)"
      using round_representable(5) by simp
    show "\<forall>x\<in>set (state ?I). float_round (x * (1 / 2 ^ 23)) = Finite x"
      using round_representable(1) by (simp add: init_simps)
    have "float_round (0 * (1 / 2 ^ 46)) = Finite 0"
      using round_representable(1) by simp
    moreover note round_cov_small
    ultimately show "\<forall>x\<in>set (state_covariance ?I).
        float_round (x * (1 / 2 ^ 46)) = Finite (if x = 0 then 0 else 10737418 / 2 ^ 76)"
      using init_cov_set [of memset_zero] by auto
  qed simp_all
  then show ?thesis by (simp add: eps_instance_def)
qed

text \<open>From there to norm \<open>2\<^sup>-\<^sup>6\<^sup>0\<close>: the difference rounds to \<open>-2\<^sup>-\<^sup>2\<^sup>3\<close> and the call rescales.\<close>

lemma eps_norm_set_tiny:
  "TRICAL_norm_set eps_instance (1 / 2 ^ 60) =
    Inr (eps_instance\<lparr>state_covariance :=
             map (\<lambda>x. if x = 0 then 0 else 5368709 / 2 ^ 149) (state_covariance eps_instance),
           field_norm := 1 / 2 ^ 60\<rparr>)"
proof -
  let ?I = "eps_instance"
  have "TRICAL_norm_set ?I (1 / 2 ^ 60) =
    Inr (?I\<lparr>state := map (\<lambda>x. x) (state ?I),
              state_covariance := map (\<lambda>x. if x = 0 then 0 else 5368709 / 2 ^ 149) (state_covariance ?I),
              field_norm := 1 / 2 ^ 60\<rparr>)"
  proof (rule norm_set_rescale_at [where d = "- (1 / 2 ^ 23)" and s = "1 / 2 ^ 37"
        and ?q1.0 = "1 / 2 ^ 120" and ?q0.0 = "1 / 2 ^ 46" and t = "1 / 2 ^ 74"])
    show "wf_instance ?I" by (rule eps_wf)
    show "field_norm ?I \<noteq> 0" by (simp add: eps_simps)
    show "float_round (1 / 2 ^ 60 - field_norm ?I) = Finite (- (1 / 2 ^ 23))"
      using round_difference_at_eps by (simp add: eps_simps)
    show "\<not> \<bar>- (1 / 2 ^ 23) :: real\<bar> < FLT_EPSILON" by (simp add: FLT_EPSILON_def)
    show "float_round (1 / 2 ^ 60 / field_norm ?I) = Finite (1 / 2 ^ 37)"
      using round_representable(4) by (simp add: eps_simps)
    show "float_round (1 / 2 ^ 60 * (1 / 2 ^ 60)) = Finite (1 / 2 ^ 120)"
      using round_representable(7) by simp
    show "float_round (field_norm ?I * field_norm ?I) = Finite (1 / 2 ^ 46)"
      using round_representable(5) by (simp add: eps_simps)
    show "float_round (1 / 2 ^ 120 / (1 / 2 ^ 46)) = Finite (1 / 2 ^ 74)"
      using round_representable(6) by simp
    show "\<forall>x\<in>set (state ?I). float_round (x * (1 / 2 ^ 37)) = Finite x"
      using round_representable(1) by (simp add: eps_simps)
    have "float_round (0 * (1 / 2 ^ 74)) = Finite 0"
      using round_representable(1) by simp
    moreover note round_cov_subnormal
    ultimately show "\<forall>x\<in>set (state_covariance ?I).
        float_round (x * (1 / 2 ^ 74)) = Finite (if x = 0 then 0 else 5368709 / 2 ^ 149)"
      using eps_cov by auto
  qed simp_all
  then show ?thesis by simp
qed

lemma underflow_simps:
  "field_norm underflow_instance = 1 / 2 ^ 129"
  "state underflow_instance = replicate 9 0"
  by (simp_all add: underflow_instance_def init_simps)

text \<open>From initialisation to norm \<open>2\<^sup>-\<^sup>1\<^sup>2\<^sup>9\<close>: the squared norm underflows to zero, and so
  does every covariance entry.\<close>

lemma init_norm_set_underflow:
  "TRICAL_norm_set (TRICAL_init memset_zero) (1 / 2 ^ 129) = Inr underflow_instance"
proof -
  let ?I = "TRICAL_init memset_zero"
  have "TRICAL_norm_set ?I (1 / 2 ^ 129) =
    Inr (?I\<lparr>state := map (\<lambda>x. x) (state ?I),
              state_covariance := map (\<lambda>x. 0) (state_covariance ?I),
              field_norm := 1 / 2 ^ 129\<rparr>)"
  proof (rule norm_set_rescale_at [where d = "- 1" and s = "1 / 2 ^ 129"
        and ?q1.0 = 0 and ?q0.0 = 1 and t = 0])
    show "wf_instance ?I" by (rule init_wf)
    show "field_norm ?I \<noteq> 0" by (simp add: init_simps)
    show "float_round (1 / 2 ^ 129 - field_norm ?I) = Finite (- 1)"
      using round_one_minus_tiny(2) by (simp add: init_simps)
    show "\<not> \<bar>- 1 :: real\<bar> < FLT_EPSILON" by (simp add: FLT_EPSILON_def)
    show "float_round (1 / 2 ^ 129 / field_norm ?I) = Finite (1 / 2 ^ 129)"
      using round_representable(8) by (simp add: init_simps)
    show "float_round (1 / 2 ^ 129 * (1 / 2 ^ 129)) = Finite 0"
      by (rule round_underflow)
    show "float_round (field_norm ?I * field_norm ?I) = Finite 1"
      using round_representable(2) by (simp add: init_simps)
    show "float_round (0 / 1) = Finite 0"
      using round_representable(1) by simp
    show "\<forall>x\<in>set (state ?I). float_round (x * (1 / 2 ^ 129)) = Finite x"
      using round_representable(1) by (simp add: init_simps)
    show "\<forall>x\<in>set (state_covariance ?I). float_round (x * 0) = Finite 0"
      using round_representable(1) by simp
  qed simp_all
  then show ?thesis by (simp add: underflow_instance_def)
qed

text \<open>And back to norm 1: the ratio \<open>1 / 2\<^sup>-\<^sup>1\<^sup>2\<^sup>9\<close> overflows to infinity, and the first bias
  entry, zero, times infinity is a NaN.\<close>

lemma underflow_norm_set_back:
  "TRICAL_norm_set underflow_instance 1 = Inl Not_finite"
proof -
  have d: "float_round (1 - field_norm underflow_instance) = Finite 1"
    using round_one_minus_tiny(1) by (simp add: underflow_simps)
  have s: "float_div float_round (Finite 1) (Finite (field_norm underflow_instance)) = Infinity"
    using round_overflow by (simp add: underflow_simps)
  have "finite_value (float_mul float_round (Finite (state underflow_instance ! 0)) Infinity)
      = Inl Not_finite"
    by (simp add: underflow_simps finite_value_def)
  then have l: "scale_loop float_round 0 9 Infinity (state underflow_instance) = Inl Not_finite"
    by (intro scale_loop_fails) simp_all
  show ?thesis
    unfolding TRICAL_norm_set_def norm_set_with_def Let_def d s l
    by (simp add: FLT_EPSILON_def)
qed

subsection \<open>The properties of TRICAL_norm_set\<close>

text \<open>The round trip over real arithmetic: the second call undoes the first.\<close>

lemma norm_set_real_round_trip:
  assumes "wf_instance inst" and "0 < field_norm inst" and "0 < n1"
  shows "\<exists>i1. TRICAL_norm_set_real inst n1 = Inr i1 \<and>
            TRICAL_norm_set_real i1 (field_norm inst) = Inr inst"
proof (cases "\<bar>n1 - field_norm inst\<bar> < FLT_EPSILON")
  case True
  with assms have "TRICAL_norm_set_real inst n1 = Inr inst"
    by (simp add: norm_set_noop)
  moreover from assms have "TRICAL_norm_set_real inst (field_norm inst) = Inr inst"
    by (simp add: norm_set_noop FLT_EPSILON_def)
  ultimately show ?thesis by simp
next
  case False
  let ?f = "field_norm inst"
  let ?i1 = "inst\<lparr>state := map (\<lambda>x. x * (n1 / ?f)) (state inst),
              state_covariance := map (\<lambda>x. x * ((n1 * n1) / (?f * ?f))) (state_covariance inst),
              field_norm := n1\<rparr>"
  from assms False have one: "TRICAL_norm_set_real inst n1 = Inr ?i1"
    by (intro norm_set_rescale) auto
  from assms(1) have wf1: "wf_instance ?i1"
    by (simp add: wf_instance_def)
  from False have far: "\<not> \<bar>?f - field_norm ?i1\<bar> < FLT_EPSILON"
    by (simp add: abs_minus_commute)
  from assms have nz: "field_norm ?i1 \<noteq> 0" by simp
  have two: "TRICAL_norm_set_real ?i1 ?f =
    Inr (?i1\<lparr>state := map (\<lambda>x. x * (?f / field_norm ?i1)) (state ?i1),
              state_covariance := map (\<lambda>x. x * ((?f * ?f) / (field_norm ?i1 * field_norm ?i1))) (state_covariance ?i1),
              field_norm := ?f\<rparr>)"
    by (rule norm_set_rescale [OF wf1 assms(2) nz far])
  have p1: "state ?i1 = map (\<lambda>x. x * (n1 / ?f)) (state inst)"
    and p2: "state_covariance ?i1 = map (\<lambda>x. x * ((n1 * n1) / (?f * ?f))) (state_covariance inst)"
    and p3: "field_norm ?i1 = n1"
    by simp_all
  from assms have s: "map (\<lambda>x. x * (?f / n1)) (map (\<lambda>x. x * (n1 / ?f)) (state inst)) = state inst"
    unfolding map_map by (intro map_idI) simp
  from assms have c: "map (\<lambda>x. x * ((?f * ?f) / (n1 * n1)))
      (map (\<lambda>x. x * ((n1 * n1) / (?f * ?f))) (state_covariance inst)) = state_covariance inst"
    unfolding map_map by (intro map_idI) simp
  have "?i1\<lparr>state := state inst, state_covariance := state_covariance inst, field_norm := ?f\<rparr> = inst"
    by simp
  with two [unfolded p1 p2 p3 s c] have "TRICAL_norm_set_real ?i1 ?f = Inr inst"
    by (simp only:)
  with one show ?thesis by blast
qed

lemma biased_wf: "wf_instance biased_instance"
  using init_wf [of memset_zero] by (simp add: biased_instance_def wf_instance_def)

lemma biased_simps:
  "field_norm biased_instance = 1"
  "state biased_instance = [10, - 3, 1 / 2, 1, 0, 0, 1, 0, 1]"
  by (simp_all add: biased_instance_def init_simps)

lemma biased_cov: "set (state_covariance biased_instance) \<subseteq> {0, 1 / 100}"
  using init_cov_set [of memset_zero] by (simp add: biased_instance_def)

lemma biased_norm_set_real:
  "TRICAL_norm_set_real biased_instance 2 =
    Inr (biased_instance\<lparr>state := [20, - 6, 1, 2, 0, 0, 2, 0, 2],
              state_covariance := map (\<lambda>x. x * 4) (state_covariance biased_instance),
              field_norm := 2\<rparr>)"
proof -
  have "\<not> \<bar>2 - field_norm biased_instance\<bar> < FLT_EPSILON"
    by (simp add: biased_simps FLT_EPSILON_def)
  then have "TRICAL_norm_set_real biased_instance 2 =
    Inr (biased_instance\<lparr>state := map (\<lambda>x. x * (2 / field_norm biased_instance)) (state biased_instance),
              state_covariance := map (\<lambda>x. x * ((2 * 2) / (field_norm biased_instance * field_norm biased_instance))) (state_covariance biased_instance),
              field_norm := 2\<rparr>)"
    by (intro norm_set_rescale biased_wf) (simp_all add: biased_simps)
  then show ?thesis
    by (simp add: biased_simps)
qed

text \<open>
  Claim C7, as amended. For a positive norm, the single-precision \<open>TRICAL_norm_set\<close>
  returns the instance as it was (error state, covariance, field norm, noise and count
  all unchanged) exactly when the distance of the norm to the current field norm is below
  \<open>FLT_EPSILON - 2\<^sup>-\<^sup>4\<^sup>8\<close>, as it is for the current norm itself. Below that distance the
  float difference \<^verbatim>\<open>norm - field_norm\<close> is below \<open>FLT_EPSILON\<close> in magnitude; from
  that distance on it is \<open>FLT_EPSILON\<close> or more, and the call rescales and stores the
  new norm.
\<close>

theorem C7_norm_set_noop:
  assumes "0 < nrm"
  shows "TRICAL_norm_set inst nrm = Inr inst \<longleftrightarrow>
         \<bar>nrm - field_norm inst\<bar> < FLT_EPSILON - 1 / 2 ^ 48"
proof
  assume b: "\<bar>nrm - field_norm inst\<bar> < FLT_EPSILON - 1 / 2 ^ 48"
  from float_round_below_epsilon [OF b] obtain d
    where "float_round (nrm - field_norm inst) = Finite d" and "\<bar>d\<bar> < FLT_EPSILON"
    by blast
  with assms show "TRICAL_norm_set inst nrm = Inr inst"
    unfolding TRICAL_norm_set_def by (intro norm_set_with_noop [where d = d])
next
  assume r: "TRICAL_norm_set inst nrm = Inr inst"
  show "\<bar>nrm - field_norm inst\<bar> < FLT_EPSILON - 1 / 2 ^ 48"
  proof (rule ccontr)
    assume "\<not> \<bar>nrm - field_norm inst\<bar> < FLT_EPSILON - 1 / 2 ^ 48"
    then have far: "FLT_EPSILON - 1 / 2 ^ 48 \<le> \<bar>nrm - field_norm inst\<bar>" by simp
    have "(0::real) < FLT_EPSILON - 1 / 2 ^ 48" by (simp add: FLT_EPSILON_def)
    with far have ne: "nrm \<noteq> field_norm inst" by auto
    have nb: "\<not> (case float_round (nrm - field_norm inst) of
                 Finite d \<Rightarrow> \<bar>d\<bar> < FLT_EPSILON | Infinity \<Rightarrow> False | NaN \<Rightarrow> False)"
      using float_round_not_below_epsilon [OF far]
      by (auto split: float_value.splits)
    from r assms nb have "field_norm inst = nrm"
      by (auto simp: TRICAL_norm_set_def norm_set_with_def Let_def split: sum.splits
          dest: arg_cong [where f = field_norm])
    with ne show False by simp
  qed
qed

theorem C7_norm_set_noop_witness:
  "(0::real) < 1 - 1 / 2 ^ 24 \<and>
   \<bar>1 - 1 / 2 ^ 24 - field_norm (TRICAL_init memset_zero)\<bar> < FLT_EPSILON - 1 / 2 ^ 48 \<and>
   TRICAL_norm_set (TRICAL_init memset_zero) (1 - 1 / 2 ^ 24) = Inr (TRICAL_init memset_zero)"
proof -
  have p: "(0::real) < 1 - 1 / 2 ^ 24" by simp
  have c: "\<bar>1 - 1 / 2 ^ 24 - field_norm (TRICAL_init memset_zero)\<bar> < FLT_EPSILON - 1 / 2 ^ 48"
    by (simp add: init_simps FLT_EPSILON_def)
  from p c C7_norm_set_noop [OF p, of "TRICAL_init memset_zero"] show ?thesis by simp
qed

text \<open>
  Claim C7 as stated, for every norm closer than \<open>FLT_EPSILON\<close> to the field norm, does not
  hold of the single-precision function. After initialisation and a call with norm
  \<open>2\<^sup>-\<^sup>2\<^sup>3\<close> the field norm is \<open>2\<^sup>-\<^sup>2\<^sup>3\<close>. The norm \<open>2\<^sup>-\<^sup>6\<^sup>0\<close> is then closer to it than
  \<open>FLT_EPSILON\<close>, but the difference \<open>2\<^sup>-\<^sup>6\<^sup>0 - 2\<^sup>-\<^sup>2\<^sup>3\<close> rounds to \<open>-2\<^sup>-\<^sup>2\<^sup>3\<close>, which is not below
  \<open>FLT_EPSILON\<close> in magnitude: the call rescales, the field norm becomes \<open>2\<^sup>-\<^sup>6\<^sup>0\<close> and the
  first covariance entry goes from \<open>10737418 / 2\<^sup>7\<^sup>6\<close> to \<open>5368709 / 2\<^sup>1\<^sup>4\<^sup>9\<close>.
\<close>

theorem C7_counterexample:
  "TRICAL_norm_set (TRICAL_init memset_zero) (1 / 2 ^ 23) = Inr eps_instance \<and>
   field_norm eps_instance = 1 / 2 ^ 23 \<and>
   (0::real) < 1 / 2 ^ 60 \<and>
   \<bar>1 / 2 ^ 60 - field_norm eps_instance\<bar> < FLT_EPSILON \<and>
   \<not> isl (TRICAL_norm_set eps_instance (1 / 2 ^ 60)) \<and>
   field_norm (projr (TRICAL_norm_set eps_instance (1 / 2 ^ 60))) = 1 / 2 ^ 60 \<and>
   state_covariance eps_instance ! 0 = 10737418 / 2 ^ 76 \<and>
   state_covariance (projr (TRICAL_norm_set eps_instance (1 / 2 ^ 60))) ! 0 = 5368709 / 2 ^ 149"
proof -
  have l: "0 < length (state_covariance eps_instance)"
    using eps_wf by (simp add: wf_instance_def)
  have "\<bar>1 / 2 ^ 60 - field_norm eps_instance\<bar> < FLT_EPSILON"
    by (simp add: eps_simps(1) FLT_EPSILON_def)
  moreover have "\<not> isl (TRICAL_norm_set eps_instance (1 / 2 ^ 60))"
    unfolding eps_norm_set_tiny by simp
  moreover have "field_norm (projr (TRICAL_norm_set eps_instance (1 / 2 ^ 60))) = 1 / 2 ^ 60"
    unfolding eps_norm_set_tiny by simp
  moreover have "state_covariance (projr (TRICAL_norm_set eps_instance (1 / 2 ^ 60))) ! 0
      = 5368709 / 2 ^ 149"
    unfolding eps_norm_set_tiny using l by (simp add: eps_cov_first)
  ultimately show ?thesis
    using init_norm_set_eps eps_simps(1) eps_cov_first by simp
qed

text \<open>
  Claim C2, as amended. Over real arithmetic, that is with every operation of
  \<^verbatim>\<open>TRICAL_norm_set\<close> exact (no rounding, no overflow, no underflow), which is the
  function \<open>TRICAL_norm_set_real\<close>: for a well-formed instance with field norm \<open>f0 > 0\<close>
  and a norm \<open>n > 0\<close> at least \<open>FLT_EPSILON\<close> away from it, the call multiplies every
  entry of the error state, the bias entries 0 to 2 and the scale entries 3 to 8 alike,
  by \<open>n / f0\<close>, multiplies every covariance entry by \<open>(n / f0)\<^sup>2\<close>, and stores \<open>n\<close> as
  the field norm; noise and count are unchanged.
\<close>

theorem C2_norm_set_rescales_whole_state:
  assumes "wf_instance inst" and "0 < field_norm inst" and "0 < nrm"
    and "FLT_EPSILON \<le> \<bar>nrm - field_norm inst\<bar>"
  shows "\<exists>inst'. TRICAL_norm_set_real inst nrm = Inr inst' \<and>
           wf_instance inst' \<and>
           (\<forall>i<9. state inst' ! i = state inst ! i * (nrm / field_norm inst)) \<and>
           (\<forall>k<81. state_covariance inst' ! k
                     = state_covariance inst ! k * (nrm / field_norm inst)\<^sup>2) \<and>
           field_norm inst' = nrm \<and>
           measurement_noise inst' = measurement_noise inst \<and>
           measurement_count inst' = measurement_count inst"
proof -
  have sq: "(nrm * nrm) / (field_norm inst * field_norm inst) = (nrm / field_norm inst)\<^sup>2"
    by (simp add: power2_eq_square)
  from assms have "TRICAL_norm_set_real inst nrm =
    Inr (inst\<lparr>state := map (\<lambda>x. x * (nrm / field_norm inst)) (state inst),
              state_covariance := map (\<lambda>x. x * ((nrm * nrm) / (field_norm inst * field_norm inst))) (state_covariance inst),
              field_norm := nrm\<rparr>)"
    by (intro norm_set_rescale) auto
  then have "TRICAL_norm_set_real inst nrm =
    Inr (inst\<lparr>state := map (\<lambda>x. x * (nrm / field_norm inst)) (state inst),
              state_covariance := map (\<lambda>x. x * (nrm / field_norm inst)\<^sup>2) (state_covariance inst),
              field_norm := nrm\<rparr>)"
    by (simp only: sq)
  with assms(1) show ?thesis
    by (simp add: wf_instance_def)
qed

theorem C2_norm_set_rescales_whole_state_witness:
  "wf_instance cx_instance \<and> 0 < field_norm cx_instance \<and> (0::real) < 2 \<and>
   FLT_EPSILON \<le> \<bar>2 - field_norm cx_instance\<bar> \<and>
   (\<exists>inst'. TRICAL_norm_set_real cx_instance 2 = Inr inst' \<and>
      state inst' ! 0 = state cx_instance ! 0 * (2 / field_norm cx_instance) \<and>
      state inst' ! 8 = state cx_instance ! 8 * (2 / field_norm cx_instance) \<and>
      state_covariance inst' ! 0 = state_covariance cx_instance ! 0 * (2 / field_norm cx_instance)\<^sup>2 \<and>
      field_norm inst' = 2)"
proof -
  have p: "0 < field_norm cx_instance" by (simp add: cx_field_norm)
  have n: "(0::real) < 2" by simp
  from C2_norm_set_rescales_whole_state [OF cx_wf p n cx_far]
  obtain inst' where r: "TRICAL_norm_set_real cx_instance 2 = Inr inst'"
    and s: "\<forall>i<9. state inst' ! i = state cx_instance ! i * (2 / field_norm cx_instance)"
    and c: "\<forall>k<81. state_covariance inst' ! k
                     = state_covariance cx_instance ! k * (2 / field_norm cx_instance)\<^sup>2"
    and fn: "field_norm inst' = 2"
    by blast
  from s [rule_format, of 0] s [rule_format, of 8] c [rule_format, of 0] r fn
  have "TRICAL_norm_set_real cx_instance 2 = Inr inst' \<and>
      state inst' ! 0 = state cx_instance ! 0 * (2 / field_norm cx_instance) \<and>
      state inst' ! 8 = state cx_instance ! 8 * (2 / field_norm cx_instance) \<and>
      state_covariance inst' ! 0 = state_covariance cx_instance ! 0 * (2 / field_norm cx_instance)\<^sup>2 \<and>
      field_norm inst' = 2"
    by simp
  then show ?thesis
    using cx_wf p n cx_far by blast
qed

text \<open>
  Claim C2 with its original clause "the scale entries 3 to 8 are unaffected" does not
  hold: on the instance \<open>cx_instance\<close> (field norm 1, scale entry 3 equal to 1) a call
  of the single-precision \<open>TRICAL_norm_set\<close> with norm 2 meets every hypothesis, stores
  only finite values, and leaves 2 in entry 3. Every rounding of this call is exact but
  that of the covariance entries.
\<close>

theorem C2_counterexample:
  "wf_instance cx_instance \<and> 0 < field_norm cx_instance \<and> (0::real) < 2 \<and>
   FLT_EPSILON \<le> \<bar>2 - field_norm cx_instance\<bar> \<and>
   \<not> isl (TRICAL_norm_set cx_instance 2) \<and>
   state cx_instance ! 3 = 1 \<and>
   state (projr (TRICAL_norm_set cx_instance 2)) ! 3 = 2"
proof -
  have "\<not> isl (TRICAL_norm_set cx_instance 2)"
    by (simp add: cx_norm_set_single)
  moreover have "state cx_instance ! 3 = 1"
    by (simp add: cx_state)
  moreover have "state (projr (TRICAL_norm_set cx_instance 2)) ! 3 = 2"
    by (simp add: cx_norm_set_single)
  moreover have "0 < field_norm cx_instance"
    by (simp add: cx_field_norm)
  ultimately show ?thesis
    using cx_wf cx_far by simp
qed

text \<open>
  Claim C8, as amended. From a well-formed instance with field norm \<open>n0 > 0\<close>, setting the
  norm to \<open>n1 > 0\<close> and then back to \<open>n0\<close>: over real arithmetic both calls succeed and
  the bias entries, with the whole instance, return to their original values exactly. In
  single precision, when both norms lie between \<open>2\<^sup>-\<^sup>2\<^sup>0\<close> and \<open>2\<^sup>2\<^sup>0\<close> and no entry of the
  error state or of the covariance exceeds \<open>2\<^sup>2\<^sup>0\<close> in magnitude, both calls store only
  finite values and every bias entry \<open>b\<close> returns to within
  \<open>4 * FLT_EPSILON * \<bar>b\<bar> + 2\<^sup>-\<^sup>1\<^sup>0\<^sup>0\<close> of its original value.
\<close>

theorem C8_norm_round_trip:
  assumes "wf_instance inst" and "0 < field_norm inst" and "0 < n1"
  shows "(\<exists>i1 i2. TRICAL_norm_set_real inst n1 = Inr i1 \<and>
            TRICAL_norm_set_real i1 (field_norm inst) = Inr i2 \<and>
            (\<forall>k<3. state i2 ! k = state inst ! k) \<and> i2 = inst) \<and>
         (1 / 2 ^ 20 \<le> field_norm inst \<and> field_norm inst \<le> 2 ^ 20 \<and>
          1 / 2 ^ 20 \<le> n1 \<and> n1 \<le> 2 ^ 20 \<and>
          (\<forall>x\<in>set (state inst). \<bar>x\<bar> \<le> 2 ^ 20) \<and>
          (\<forall>x\<in>set (state_covariance inst). \<bar>x\<bar> \<le> 2 ^ 20) \<longrightarrow>
          (\<exists>i1 i2. TRICAL_norm_set inst n1 = Inr i1 \<and>
             TRICAL_norm_set i1 (field_norm inst) = Inr i2 \<and>
             (\<forall>k<3. \<bar>state i2 ! k - state inst ! k\<bar>
                      \<le> 4 * FLT_EPSILON * \<bar>state inst ! k\<bar> + 1 / 2 ^ 100)))"
proof (intro conjI impI)
  from norm_set_real_round_trip [OF assms]
  show "\<exists>i1 i2. TRICAL_norm_set_real inst n1 = Inr i1 \<and>
            TRICAL_norm_set_real i1 (field_norm inst) = Inr i2 \<and>
            (\<forall>k<3. state i2 ! k = state inst ! k) \<and> i2 = inst"
    by blast
next
  assume r: "1 / 2 ^ 20 \<le> field_norm inst \<and> field_norm inst \<le> 2 ^ 20 \<and>
          1 / 2 ^ 20 \<le> n1 \<and> n1 \<le> 2 ^ 20 \<and>
          (\<forall>x\<in>set (state inst). \<bar>x\<bar> \<le> 2 ^ 20) \<and>
          (\<forall>x\<in>set (state_covariance inst). \<bar>x\<bar> \<le> 2 ^ 20)"
  then have "\<exists>i1 i2. TRICAL_norm_set inst n1 = Inr i1 \<and>
            TRICAL_norm_set i1 (field_norm inst) = Inr i2 \<and>
            field_norm i2 = field_norm inst \<and>
            (\<forall>k<9. \<bar>state i2 ! k - state inst ! k\<bar>
                     \<le> 4 * FLT_EPSILON * \<bar>state inst ! k\<bar> + 1 / 2 ^ 100)"
    using assms(1) by (intro norm_set_round_trip_single) simp_all
  then obtain i1 i2 where "TRICAL_norm_set inst n1 = Inr i1"
    "TRICAL_norm_set i1 (field_norm inst) = Inr i2"
    and b: "\<forall>k<9. \<bar>state i2 ! k - state inst ! k\<bar>
                     \<le> 4 * FLT_EPSILON * \<bar>state inst ! k\<bar> + 1 / 2 ^ 100"
    by blast
  moreover from b have "\<forall>k<3. \<bar>state i2 ! k - state inst ! k\<bar>
                     \<le> 4 * FLT_EPSILON * \<bar>state inst ! k\<bar> + 1 / 2 ^ 100"
    by simp
  ultimately show "\<exists>i1 i2. TRICAL_norm_set inst n1 = Inr i1 \<and>
             TRICAL_norm_set i1 (field_norm inst) = Inr i2 \<and>
             (\<forall>k<3. \<bar>state i2 ! k - state inst ! k\<bar>
                      \<le> 4 * FLT_EPSILON * \<bar>state inst ! k\<bar> + 1 / 2 ^ 100)"
    by blast
qed

theorem C8_norm_round_trip_witness:
  "wf_instance biased_instance \<and> 0 < field_norm biased_instance \<and> (0::real) < 2 \<and>
   state biased_instance ! 0 = 10 \<and>
   (\<exists>i1 i2. TRICAL_norm_set_real biased_instance 2 = Inr i1 \<and>
      TRICAL_norm_set_real i1 (field_norm biased_instance) = Inr i2 \<and>
      state i1 ! 0 = 20 \<and>
      state i2 ! 0 = 10 \<and> state i2 ! 1 = - 3 \<and> state i2 ! 2 = 1 / 2 \<and> i2 = biased_instance) \<and>
   1 / 2 ^ 20 \<le> field_norm biased_instance \<and> field_norm biased_instance \<le> 2 ^ 20 \<and>
   (1 / 2 ^ 20 :: real) \<le> 2 \<and> (2 :: real) \<le> 2 ^ 20 \<and>
   Max (abs ` set (state biased_instance)) \<le> 2 ^ 20 \<and>
   Max (abs ` set (state_covariance biased_instance)) \<le> 2 ^ 20 \<and>
   (\<exists>i1 i2. TRICAL_norm_set biased_instance 2 = Inr i1 \<and>
      TRICAL_norm_set i1 (field_norm biased_instance) = Inr i2 \<and>
      \<bar>state i2 ! 0 - 10\<bar> \<le> 4 * FLT_EPSILON * 10 + 1 / 2 ^ 100 \<and>
      \<bar>state i2 ! 1 - (- 3)\<bar> \<le> 4 * FLT_EPSILON * 3 + 1 / 2 ^ 100 \<and>
      \<bar>state i2 ! 2 - 1 / 2\<bar> \<le> 4 * FLT_EPSILON * (1 / 2) + 1 / 2 ^ 100)"
proof -
  have p: "0 < field_norm biased_instance" by (simp add: biased_simps)
  have n: "(0::real) < 2" by simp
  note t = C8_norm_round_trip [OF biased_wf p n]
  have s: "\<forall>x\<in>set (state biased_instance). \<bar>x\<bar> \<le> 2 ^ 20"
    by (simp add: biased_simps)
  have c: "\<forall>x\<in>set (state_covariance biased_instance). \<bar>x\<bar> \<le> 2 ^ 20"
    using biased_cov by auto
  have ne: "state_covariance biased_instance \<noteq> []"
    using biased_wf by (auto simp: wf_instance_def)
  have ms: "Max (abs ` set (state biased_instance)) \<le> 2 ^ 20"
    by (simp add: biased_simps)
  have mc: "Max (abs ` set (state_covariance biased_instance)) \<le> 2 ^ 20"
    using c ne by (subst Max_le_iff) auto
  have r: "1 / 2 ^ 20 \<le> field_norm biased_instance" "field_norm biased_instance \<le> 2 ^ 20"
    "(1 / 2 ^ 20 :: real) \<le> 2" "(2 :: real) \<le> 2 ^ 20"
    by (simp_all add: biased_simps)
  from t obtain i1 i2 where a: "TRICAL_norm_set_real biased_instance 2 = Inr i1"
      "TRICAL_norm_set_real i1 (field_norm biased_instance) = Inr i2" "i2 = biased_instance"
    by blast
  from a(1) have "state i1 ! 0 = 20"
    by (auto simp: biased_norm_set_real)
  with a have one: "\<exists>i1 i2. TRICAL_norm_set_real biased_instance 2 = Inr i1 \<and>
      TRICAL_norm_set_real i1 (field_norm biased_instance) = Inr i2 \<and>
      state i1 ! 0 = 20 \<and>
      state i2 ! 0 = 10 \<and> state i2 ! 1 = - 3 \<and> state i2 ! 2 = 1 / 2 \<and> i2 = biased_instance"
    by (auto simp: biased_simps)
  from t r s c obtain j1 j2 where b: "TRICAL_norm_set biased_instance 2 = Inr j1"
      "TRICAL_norm_set j1 (field_norm biased_instance) = Inr j2"
      "\<forall>k<3. \<bar>state j2 ! k - state biased_instance ! k\<bar>
                      \<le> 4 * FLT_EPSILON * \<bar>state biased_instance ! k\<bar> + 1 / 2 ^ 100"
    by blast
  from b(3) [rule_format, of 0] b(3) [rule_format, of 1] b(3) [rule_format, of 2]
  have "\<bar>state j2 ! 0 - 10\<bar> \<le> 4 * FLT_EPSILON * 10 + 1 / 2 ^ 100"
      "\<bar>state j2 ! 1 - (- 3)\<bar> \<le> 4 * FLT_EPSILON * 3 + 1 / 2 ^ 100"
      "\<bar>state j2 ! 2 - 1 / 2\<bar> \<le> 4 * FLT_EPSILON * (1 / 2) + 1 / 2 ^ 100"
    by (simp_all add: biased_simps)
  with b have two: "\<exists>i1 i2. TRICAL_norm_set biased_instance 2 = Inr i1 \<and>
      TRICAL_norm_set i1 (field_norm biased_instance) = Inr i2 \<and>
      \<bar>state i2 ! 0 - 10\<bar> \<le> 4 * FLT_EPSILON * 10 + 1 / 2 ^ 100 \<and>
      \<bar>state i2 ! 1 - (- 3)\<bar> \<le> 4 * FLT_EPSILON * 3 + 1 / 2 ^ 100 \<and>
      \<bar>state i2 ! 2 - 1 / 2\<bar> \<le> 4 * FLT_EPSILON * (1 / 2) + 1 / 2 ^ 100"
    by blast
  have "state biased_instance ! 0 = 10" by (simp add: biased_simps)
  with biased_wf p n one r ms mc two show ?thesis by blast
qed

text \<open>
  Claim C8 as stated, for every \<open>n1 > 0\<close>, does not hold of the single-precision function.
  After initialisation (field norm 1, bias zero) the call with \<open>n1 = 2\<^sup>-\<^sup>1\<^sup>2\<^sup>9\<close> succeeds; in
  the call back to norm 1 the ratio \<open>1 / 2\<^sup>-\<^sup>1\<^sup>2\<^sup>9\<close> overflows to infinity, and the first bias
  entry, zero times infinity, is a NaN.
\<close>

theorem C8_counterexample:
  "wf_instance (TRICAL_init memset_zero) \<and>
   field_norm (TRICAL_init memset_zero) = 1 \<and>
   (0::real) < 1 / 2 ^ 129 \<and>
   TRICAL_norm_set (TRICAL_init memset_zero) (1 / 2 ^ 129) = Inr underflow_instance \<and>
   TRICAL_norm_set underflow_instance (field_norm (TRICAL_init memset_zero)) = Inl Not_finite"
  using init_wf [of memset_zero] init_norm_set_underflow underflow_norm_set_back
  by (simp add: init_simps)

subsection \<open>Reading the estimate\<close>

lemma list9: "length xs = 9 \<Longrightarrow> \<exists>a b c d e f g h i. xs = [a, b, c, d, e, f, g, h, i]"
  by (simp add: numeral_eq_Suc length_Suc_conv) blast

lemma list3: "length xs = 3 \<Longrightarrow> \<exists>a b c. xs = [a, b, c]"
  by (simp add: numeral_eq_Suc length_Suc_conv) blast

lemma below3: "(i::nat) < 3 \<Longrightarrow> i = 0 \<or> i = 1 \<or> i = 2"
  by linarith

lemma estimate_get_eq:
  assumes "wf_instance inst" "length b = 3" "length s = 9"
  shows "TRICAL_estimate_get inst b s =
    (([state inst ! 0, state inst ! 1, state inst ! 2],
      [state inst ! 3, state inst ! 4, state inst ! 5,
       state inst ! 4, state inst ! 6, state inst ! 7,
       state inst ! 5, state inst ! 7, state inst ! 8]), inst)"
proof -
  from assms(1) have "length (state inst) = 9" by (simp add: wf_instance_def)
  then obtain x0 x1 x2 x3 x4 x5 x6 x7 x8 where st: "state inst = [x0, x1, x2, x3, x4, x5, x6, x7, x8]"
    using list9 by blast
  from assms(3) obtain s0 s1 s2 s3 s4 s5 s6 s7 s8 where s: "s = [s0, s1, s2, s3, s4, s5, s6, s7, s8]"
    using list9 by blast
  from assms(2) obtain b0 b1 b2 where b: "b = [b0, b1, b2]"
    using list3 by blast
  show ?thesis
    by (simp add: TRICAL_estimate_get_def st s b Let_def)
qed

lemma estimate_get_ext_eq:
  assumes "wf_instance inst" "length b = 3" "length s = 9" "length bv = 3" "length sv = 9"
  shows "TRICAL_estimate_get_ext inst b s bv sv =
    (([state inst ! 0, state inst ! 1, state inst ! 2],
      [state inst ! 3, state inst ! 4, state inst ! 5,
       state inst ! 4, state inst ! 6, state inst ! 7,
       state inst ! 5, state inst ! 7, state inst ! 8],
      [state_covariance inst ! 0, state_covariance inst ! 10, state_covariance inst ! 20],
      [state_covariance inst ! 30, state_covariance inst ! 40, state_covariance inst ! 50,
       state_covariance inst ! 40, state_covariance inst ! 60, state_covariance inst ! 70,
       state_covariance inst ! 50, state_covariance inst ! 70, state_covariance inst ! 80]), inst)"
proof -
  from assms(5) obtain s0 s1 s2 s3 s4 s5 s6 s7 s8 where s: "sv = [s0, s1, s2, s3, s4, s5, s6, s7, s8]"
    using list9 by blast
  from assms(4) obtain b0 b1 b2 where b: "bv = [b0, b1, b2]"
    using list3 by blast
  show ?thesis
    by (simp add: TRICAL_estimate_get_ext_def estimate_get_eq [OF assms(1-3)] s b Let_def)
qed

text \<open>
  Claim C5. For a well-formed instance and output buffers of 3 and 9 floats,
  \<open>TRICAL_estimate_get\<close> returns the bias as state entries 0 to 2 and the scale matrix
  as state entries 3, 4, 5, 4, 6, 7, 5, 7, 8, which is symmetric;
  \<open>TRICAL_estimate_get_ext\<close> returns the same two and, in addition, the bias variances
  \<open>state_covariance[i * 9 + i]\<close> for \<open>i = 0, 1, 2\<close> and the scale variances taken from the
  covariance diagonal at positions 3, 4, 5, 4, 6, 7, 5, 7, 8.
\<close>

theorem C5_estimate_get:
  assumes "wf_instance inst" and "length b = 3" and "length s = 9"
    and "length bv = 3" and "length sv = 9"
  shows "\<exists>bias scale bias_var scale_var.
     TRICAL_estimate_get inst b s = ((bias, scale), inst) \<and>
     TRICAL_estimate_get_ext inst b s bv sv = ((bias, scale, bias_var, scale_var), inst) \<and>
     length bias = 3 \<and> (\<forall>i<3. bias ! i = state inst ! i) \<and>
     scale = [state inst ! 3, state inst ! 4, state inst ! 5,
              state inst ! 4, state inst ! 6, state inst ! 7,
              state inst ! 5, state inst ! 7, state inst ! 8] \<and>
     (\<forall>r<3. \<forall>c<3. scale ! (r * 3 + c) = scale ! (c * 3 + r)) \<and>
     length bias_var = 3 \<and> (\<forall>i<3. bias_var ! i = state_covariance inst ! (i * 9 + i)) \<and>
     scale_var = [state_covariance inst ! (3 * 9 + 3), state_covariance inst ! (4 * 9 + 4),
                  state_covariance inst ! (5 * 9 + 5), state_covariance inst ! (4 * 9 + 4),
                  state_covariance inst ! (6 * 9 + 6), state_covariance inst ! (7 * 9 + 7),
                  state_covariance inst ! (5 * 9 + 5), state_covariance inst ! (7 * 9 + 7),
                  state_covariance inst ! (8 * 9 + 8)] \<and>
     (\<forall>r<3. \<forall>c<3. scale_var ! (r * 3 + c) = scale_var ! (c * 3 + r))"
proof -
  let ?bias = "[state inst ! 0, state inst ! 1, state inst ! 2]"
  let ?scale = "[state inst ! 3, state inst ! 4, state inst ! 5,
       state inst ! 4, state inst ! 6, state inst ! 7,
       state inst ! 5, state inst ! 7, state inst ! 8]"
  let ?bv = "[state_covariance inst ! 0, state_covariance inst ! 10, state_covariance inst ! 20]"
  let ?sv = "[state_covariance inst ! 30, state_covariance inst ! 40, state_covariance inst ! 50,
       state_covariance inst ! 40, state_covariance inst ! 60, state_covariance inst ! 70,
       state_covariance inst ! 50, state_covariance inst ! 70, state_covariance inst ! 80]"
  have sym: "\<forall>r<3. \<forall>c<3. [x3, x4, x5, x4, x6, x7, x5, x7, x8] ! (r * 3 + c)
      = [x3, x4, x5, x4, x6, x7, x5, x7, x8] ! (c * 3 + r)" for x3 x4 x5 x6 x7 x8 :: real
  proof (intro allI impI)
    fix r c :: nat
    assume r: "r < 3" and c: "c < 3"
    from below3 [OF r] below3 [OF c] show "[x3, x4, x5, x4, x6, x7, x5, x7, x8] ! (r * 3 + c)
      = [x3, x4, x5, x4, x6, x7, x5, x7, x8] ! (c * 3 + r)"
      by (elim disjE) simp_all
  qed
  have b: "\<forall>i<3. ?bias ! i = state inst ! i"
  proof (intro allI impI)
    fix i :: nat assume i: "i < 3"
    from below3 [OF i] show "?bias ! i = state inst ! i"
      by (elim disjE) simp_all
  qed
  have v: "\<forall>i<3. ?bv ! i = state_covariance inst ! (i * 9 + i)"
  proof (intro allI impI)
    fix i :: nat assume i: "i < 3"
    from below3 [OF i] show "?bv ! i = state_covariance inst ! (i * 9 + i)"
      by (elim disjE) simp_all
  qed
  have "TRICAL_estimate_get inst b s = ((?bias, ?scale), inst)"
    by (rule estimate_get_eq [OF assms(1-3)])
  moreover have "TRICAL_estimate_get_ext inst b s bv sv = ((?bias, ?scale, ?bv, ?sv), inst)"
    by (rule estimate_get_ext_eq [OF assms])
  moreover have "?sv = [state_covariance inst ! (3 * 9 + 3), state_covariance inst ! (4 * 9 + 4),
                  state_covariance inst ! (5 * 9 + 5), state_covariance inst ! (4 * 9 + 4),
                  state_covariance inst ! (6 * 9 + 6), state_covariance inst ! (7 * 9 + 7),
                  state_covariance inst ! (5 * 9 + 5), state_covariance inst ! (7 * 9 + 7),
                  state_covariance inst ! (8 * 9 + 8)]"
    by simp
  moreover have "length ?bias = 3" "length ?bv = 3" by simp_all
  ultimately show ?thesis
    using b v sym [of "state inst ! 3" "state inst ! 4" "state inst ! 5" "state inst ! 6"
        "state inst ! 7" "state inst ! 8"]
      sym [of "state_covariance inst ! 30" "state_covariance inst ! 40"
        "state_covariance inst ! 50" "state_covariance inst ! 60"
        "state_covariance inst ! 70" "state_covariance inst ! 80"]
    by (intro exI [of _ ?bias] exI [of _ ?scale] exI [of _ ?bv] exI [of _ ?sv] conjI)
       (simp_all only:)
qed

theorem C5_estimate_get_witness:
  "wf_instance cx_instance \<and> length [7, 7, 7 :: real] = 3 \<and> length (replicate 9 (7 :: real)) = 9 \<and>
   (\<exists>bias scale bias_var scale_var.
      TRICAL_estimate_get cx_instance [7, 7, 7] (replicate 9 7) = ((bias, scale), cx_instance) \<and>
      TRICAL_estimate_get_ext cx_instance [7, 7, 7] (replicate 9 7) [7, 7, 7] (replicate 9 7)
        = ((bias, scale, bias_var, scale_var), cx_instance) \<and>
      bias ! 0 = 0 \<and> scale = [1, 0, 0, 0, 1, 0, 0, 0, 1] \<and>
      bias_var ! 2 = state_covariance cx_instance ! 20)"
proof -
  have l3: "length [7, 7, 7 :: real] = 3" and l9: "length (replicate 9 (7 :: real)) = 9"
    by simp_all
  from C5_estimate_get [OF cx_wf l3 l9 l3 l9]
  obtain bias scale bias_var scale_var where
    g: "TRICAL_estimate_get cx_instance [7, 7, 7] (replicate 9 7) = ((bias, scale), cx_instance)"
    and e: "TRICAL_estimate_get_ext cx_instance [7, 7, 7] (replicate 9 7) [7, 7, 7] (replicate 9 7)
        = ((bias, scale, bias_var, scale_var), cx_instance)"
    and b: "\<forall>i<3. bias ! i = state cx_instance ! i"
    and s: "scale = [state cx_instance ! 3, state cx_instance ! 4, state cx_instance ! 5,
              state cx_instance ! 4, state cx_instance ! 6, state cx_instance ! 7,
              state cx_instance ! 5, state cx_instance ! 7, state cx_instance ! 8]"
    and v: "\<forall>i<3. bias_var ! i = state_covariance cx_instance ! (i * 9 + i)"
    by blast
  from b [rule_format, of 0] have "bias ! 0 = 0" by (simp add: cx_state)
  moreover from s have "scale = [1, 0, 0, 0, 1, 0, 0, 0, 1]" by (simp add: cx_state)
  moreover from v [rule_format, of 2] have "bias_var ! 2 = state_covariance cx_instance ! 20"
    by simp
  ultimately show ?thesis
    using g e cx_wf l3 l9 by blast
qed

subsection \<open>Frame properties and the configuration invariant\<close>

text \<open>
  Claim C9. Each of the six read-only operations returns the instance it was given:
  no field of the calibration state is changed by \<open>TRICAL_norm_get\<close>, \<open>TRICAL_noise_get\<close>,
  \<open>TRICAL_measurement_count_get\<close>, \<open>TRICAL_estimate_get\<close>, \<open>TRICAL_estimate_get_ext\<close>
  or \<open>TRICAL_measurement_calibrate\<close>; in a sequence of calls, a step that is not
  initialisation, a setter or the update leaves the instance as it was.
\<close>

theorem C9_read_only_frame:
  "snd (TRICAL_norm_get inst) = inst \<and>
   snd (TRICAL_noise_get inst) = inst \<and>
   snd (TRICAL_measurement_count_get inst) = inst \<and>
   snd (TRICAL_estimate_get inst b s) = inst \<and>
   snd (TRICAL_estimate_get_ext inst b s bv sv) = inst \<and>
   snd (TRICAL_measurement_calibrate cal inst m) = inst \<and>
   step ut cal Op_norm_get inst = Inr inst \<and>
   step ut cal Op_noise_get inst = Inr inst \<and>
   step ut cal Op_measurement_count_get inst = Inr inst \<and>
   step ut cal Op_estimate_get inst = Inr inst \<and>
   step ut cal Op_estimate_get_ext inst = Inr inst \<and>
   step ut cal (Op_measurement_calibrate m) inst = Inr inst"
  by (simp add: TRICAL_norm_get_def TRICAL_noise_get_def TRICAL_measurement_count_get_def
      TRICAL_estimate_get_def TRICAL_estimate_get_ext_def TRICAL_measurement_calibrate_def Let_def)

lemma filter_iterate_config:
  "field_norm (trical_filter_iterate ut inst m) = field_norm inst"
  "measurement_noise (trical_filter_iterate ut inst m) = measurement_noise inst"
  "measurement_count (trical_filter_iterate ut inst m) = measurement_count inst"
  by (simp_all add: trical_filter_iterate_def Let_def)

lemma estimate_update_config:
  "field_norm (TRICAL_estimate_update ut inst m) = field_norm inst"
  "measurement_noise (TRICAL_estimate_update ut inst m) = measurement_noise inst"
  by (simp_all add: TRICAL_estimate_update_def Let_def filter_iterate_config)

lemma norm_set_config:
  assumes "0 < nrm" "0 < field_norm inst" "0 < measurement_noise inst"
  shows "\<exists>inst'. TRICAL_norm_set_real inst nrm = Inr inst' \<and>
           0 < field_norm inst' \<and> 0 < measurement_noise inst'"
proof (cases "\<bar>nrm - field_norm inst\<bar> < FLT_EPSILON")
  case True
  with assms show ?thesis by (simp add: norm_set_noop)
next
  case False
  let ?c = "nrm / field_norm inst"
  let ?c2 = "(nrm * nrm) / (field_norm inst * field_norm inst)"
  from scale_loop_exact_total [of 0 9 ?c "state inst"]
  obtain st where st: "scale_loop exact 0 9 (Finite ?c) (state inst) = Inr st" ..
  from scale_loop_exact_total [of 0 "9 * 9" ?c2 "state_covariance inst"]
  obtain cov where cov: "scale_loop exact 0 (9 * 9) (Finite ?c2) (state_covariance inst) = Inr cov" ..
  from assms False st cov
  have "TRICAL_norm_set_real inst nrm
      = Inr (inst\<lparr>state := st, state_covariance := cov, field_norm := nrm\<rparr>)"
    by (simp add: TRICAL_norm_set_real_def norm_set_with_def exact_def Let_def)
  with assms show ?thesis by simp
qed

text \<open>In single precision a call that stores only finite values keeps both scalars positive
  too.\<close>

lemma norm_set_single_config:
  assumes "TRICAL_norm_set inst nrm = Inr inst'"
    and "0 < field_norm inst" and "0 < measurement_noise inst"
  shows "0 < field_norm inst' \<and> 0 < measurement_noise inst'"
  using assms
  by (auto simp: TRICAL_norm_set_def norm_set_with_def Let_def split: if_splits sum.splits)

lemma step_config:
  assumes "precondition x" "0 < field_norm inst" "0 < measurement_noise inst"
  shows "\<exists>inst'. step ut cal x inst = Inr inst' \<and>
           0 < field_norm inst' \<and> 0 < measurement_noise inst'"
proof (cases x)
  case Op_init
  then show ?thesis by (simp add: init_simps)
next
  case (Op_norm_set nrm)
  with assms show ?thesis by (simp add: norm_set_config)
next
  case (Op_noise_set noise)
  with assms show ?thesis by (simp add: TRICAL_noise_set_def)
next
  case (Op_estimate_update m)
  with assms show ?thesis by (simp add: estimate_update_config)
qed (use assms in \<open>simp_all add: TRICAL_norm_get_def TRICAL_noise_get_def
      TRICAL_measurement_count_get_def TRICAL_estimate_get_def TRICAL_estimate_get_ext_def
      TRICAL_measurement_calibrate_def Let_def\<close>)

lemma run_config:
  assumes "\<forall>x\<in>set xs. precondition x" "0 < field_norm inst" "0 < measurement_noise inst"
  shows "\<exists>inst'. run ut cal xs inst = Inr inst' \<and>
           0 < field_norm inst' \<and> 0 < measurement_noise inst'"
  using assms
proof (induction xs arbitrary: inst)
  case Nil
  then show ?case by simp
next
  case (Cons x xs)
  from Cons.prems have "precondition x" by simp
  from step_config [OF this Cons.prems(2,3), of ut cal]
  obtain i1 where s: "step ut cal x inst = Inr i1"
    and p: "0 < field_norm i1" "0 < measurement_noise i1"
    by blast
  from Cons.prems have "\<forall>x\<in>set xs. precondition x" by simp
  from Cons.IH [OF this p] s show ?case by simp
qed

text \<open>
  Claim C10. Start from \<open>TRICAL_init\<close> and make any sequence of public calls whose
  arguments satisfy the asserted preconditions (norm and noise positive). Then every
  call of the sequence succeeds, and after each of them the field norm and the
  measurement noise are positive.
\<close>

theorem C10_config_invariant:
  assumes "\<forall>x\<in>set xs. precondition x"
  shows "\<forall>k\<le>length xs. \<exists>inst'.
           run ut cal (take k xs) (TRICAL_init inst) = Inr inst' \<and>
           0 < field_norm inst' \<and> 0 < measurement_noise inst'"
proof (intro allI impI)
  fix k
  from assms have "\<forall>x\<in>set (take k xs). precondition x"
    by (auto dest: in_set_takeD)
  then show "\<exists>inst'. run ut cal (take k xs) (TRICAL_init inst) = Inr inst' \<and>
           0 < field_norm inst' \<and> 0 < measurement_noise inst'"
    by (intro run_config) (simp_all add: init_simps)
qed

theorem C10_config_invariant_witness:
  "precondition (Op_norm_set 2) \<and> precondition (Op_estimate_update [1, 0, 0]) \<and>
   precondition (Op_noise_set (1 / 10)) \<and> precondition Op_estimate_get \<and>
   (\<exists>inst'. run (const_stats 1) example_cal
        [Op_norm_set 2, Op_estimate_update [1, 0, 0], Op_noise_set (1 / 10)]
        (TRICAL_init memset_zero) = Inr inst' \<and>
      0 < field_norm inst' \<and> 0 < measurement_noise inst')"
proof -
  have p: "\<forall>x\<in>set [Op_norm_set 2, Op_estimate_update [1, 0, 0], Op_noise_set (1 / 10), Op_estimate_get].
      precondition x"
    by simp
  from C10_config_invariant [OF p, of "const_stats 1" example_cal memset_zero, rule_format, of 3] p
  show ?thesis by simp
qed

subsection \<open>The update cycle with a degenerate predicted variance\<close>

text \<open>
  Claim C4. When the predicted measurement variance computed in the cycle is not
  positive, \<open>TRICAL_estimate_update\<close> skips the correction: error state and covariance
  (and the two configuration scalars) are as before, and the measurement count has
  gone up by one (modulo \<open>2\<^sup>3\<^sup>2\<close>, the counter being an \<^verbatim>\<open>unsigned int\<close>).
\<close>

theorem C4_degenerate_variance_skips:
  assumes "predicted_variance (ut inst m) \<le> 0"
  shows "TRICAL_estimate_update ut inst m
           = inst\<lparr>measurement_count := measurement_count inst + 1\<rparr> \<and>
         state (TRICAL_estimate_update ut inst m) = state inst \<and>
         state_covariance (TRICAL_estimate_update ut inst m) = state_covariance inst \<and>
         measurement_count (TRICAL_estimate_update ut inst m) = measurement_count inst + 1"
  using assms by (simp add: TRICAL_estimate_update_def trical_filter_iterate_def Let_def)

theorem C4_degenerate_variance_skips_witness:
  "predicted_variance (const_stats 0 cx_instance [1, 0, 0]) \<le> 0 \<and>
   state (TRICAL_estimate_update (const_stats 0) cx_instance [1, 0, 0]) = [0, 0, 0, 1, 0, 0, 1, 0, 1] \<and>
   state_covariance (TRICAL_estimate_update (const_stats 0) cx_instance [1, 0, 0])
     = state_covariance cx_instance \<and>
   measurement_count (TRICAL_estimate_update (const_stats 0) cx_instance [1, 0, 0]) = 1"
proof -
  have v: "predicted_variance (const_stats 0 cx_instance [1, 0, 0]) \<le> 0"
    by (simp add: const_stats_def)
  have c: "measurement_count cx_instance = 0"
    by (simp add: cx_instance_def init_simps)
  from C4_degenerate_variance_skips [of "const_stats 0" cx_instance "[1, 0, 0]", OF v] v show ?thesis
    by (simp add: cx_state c)
qed

section \<open>Properties of the matrix kernel\<close>

subsection \<open>The Cholesky recurrence\<close>

lemma cholesky_diag: "cholesky_entry M i i = sqrt (pivot M i)"
  by (subst cholesky_entry.simps) (simp add: pivot_def)

lemma cholesky_below:
  "j < i \<Longrightarrow> cholesky_entry M i j =
     (M i j - (\<Sum>p<j. cholesky_entry M i p * cholesky_entry M j p)) / cholesky_entry M j j"
  by (subst cholesky_entry.simps) simp

lemma cholesky_above: "i < j \<Longrightarrow> cholesky_entry M i j = 0"
  by (subst cholesky_entry.simps) simp

lemma cholesky_diag_pos: "0 < pivot M i \<Longrightarrow> 0 < cholesky_entry M i i"
  by (simp add: cholesky_diag)

text \<open>With positive pivots in the rows below \<open>m\<close>, row \<open>j < m\<close> of the factor
  reproduces column \<open>j\<close> of \<open>M\<close> from the diagonal downwards.\<close>

lemma cholesky_product_row:
  assumes piv: "\<forall>j<m. 0 < pivot M j" and j: "j < m" and ji: "j \<le> i"
  shows "(\<Sum>p\<le>j. cholesky_entry M i p * cholesky_entry M j p) = M i j"
proof (cases "i = j")
  case True
  from piv j have "0 \<le> pivot M j" by (simp add: less_imp_le)
  then have "(cholesky_entry M j j)\<^sup>2 = pivot M j"
    by (simp add: cholesky_diag)
  then have "(\<Sum>p<j. (cholesky_entry M j p)\<^sup>2) + (cholesky_entry M j j)\<^sup>2 = M j j"
    by (simp add: pivot_def)
  with True show ?thesis
    by (simp add: lessThan_Suc_atMost [symmetric] power2_eq_square)
next
  case False
  with ji have lt: "j < i" by simp
  from piv j have nz: "cholesky_entry M j j \<noteq> 0"
    using cholesky_diag_pos [of M j] by auto
  have "cholesky_entry M i j * cholesky_entry M j j
      = M i j - (\<Sum>p<j. cholesky_entry M i p * cholesky_entry M j p)"
    using nz by (simp add: cholesky_below [OF lt])
  then show ?thesis
    by (simp add: lessThan_Suc_atMost [symmetric])
qed

lemma cholesky_product:
  assumes piv: "\<forall>j<m. 0 < pivot M j" and j: "j < m" and ji: "j \<le> i" and k: "j < k"
  shows "(\<Sum>p<k. cholesky_entry M i p * cholesky_entry M j p) = M i j"
proof -
  have "(\<Sum>p<k. cholesky_entry M i p * cholesky_entry M j p)
      = (\<Sum>p\<le>j. cholesky_entry M i p * cholesky_entry M j p)"
  proof (rule sum.mono_neutral_right)
    show "finite {..<k}" by simp
    from k show "{..j} \<subseteq> {..<k}" by auto
    show "\<forall>p\<in>{..<k} - {..j}. cholesky_entry M i p * cholesky_entry M j p = 0"
      by (auto simp: cholesky_above)
  qed
  with cholesky_product_row [OF piv j ji] show ?thesis by simp
qed

subsection \<open>Positive definiteness gives positive pivots\<close>

text \<open>Back substitution in the transposed triangular system: a vector with last
  component 1 that is orthogonal to the first \<open>m\<close> columns of the factor.\<close>

lemma orthogonal_vector:
  fixes G :: "nat \<Rightarrow> nat \<Rightarrow> real"
  assumes upper: "\<And>i p. i < p \<Longrightarrow> G i p = 0" and nz: "\<forall>p<m. G p p \<noteq> 0"
  shows "\<exists>x. x m = 1 \<and> (\<forall>i>m. x i = 0) \<and> (\<forall>p<m. (\<Sum>i\<le>m. x i * G i p) = 0)"
proof -
  have "\<exists>x. x m = 1 \<and> (\<forall>i>m. x i = 0) \<and> (\<forall>p. m - k \<le> p \<and> p < m \<longrightarrow> (\<Sum>i\<le>m. x i * G i p) = 0)"
    if "k \<le> m" for k
    using that
  proof (induction k)
    case 0
    have "(\<lambda>i. if i = m then 1 else (0::real)) m = 1 \<and>
          (\<forall>i>m. (\<lambda>i. if i = m then 1 else (0::real)) i = 0)"
      by simp
    then show ?case by (intro exI [of _ "\<lambda>i. if i = m then 1 else (0::real)"]) simp
  next
    case (Suc k)
    then obtain x where xm: "x m = 1" and xz: "\<forall>i>m. x i = 0"
      and xo: "\<forall>p. m - k \<le> p \<and> p < m \<longrightarrow> (\<Sum>i\<le>m. x i * G i p) = 0"
      by auto
    define q where "q = m - Suc k"
    from Suc.prems have q: "q < m" "m - k = Suc q"
      by (simp_all add: q_def)
    define t where "t = - (\<Sum>i\<in>{q<..m}. x i * G i q) / G q q"
    define y where "y = x(q := t)"
    from q nz have gq: "G q q \<noteq> 0" by simp
    have ym: "y m = 1" using q xm by (simp add: y_def)
    have yz: "\<forall>i>m. y i = 0" using q xz by (simp add: y_def)
    have split: "{..m} = {..<q} \<union> ({q} \<union> {q<..m})"
      using q by auto
    have "(\<Sum>i\<le>m. y i * G i p) = 0" if p: "m - Suc k \<le> p" "p < m" for p
    proof (cases "p = q")
      case True
      have "(\<Sum>i\<le>m. y i * G i q)
          = (\<Sum>i<q. y i * G i q) + (y q * G q q + (\<Sum>i\<in>{q<..m}. y i * G i q))"
        by (subst split, subst sum.union_disjoint) (auto simp: sum.union_disjoint)
      also have "(\<Sum>i<q. y i * G i q) = 0"
        by (simp add: upper)
      also have "(\<Sum>i\<in>{q<..m}. y i * G i q) = (\<Sum>i\<in>{q<..m}. x i * G i q)"
        by (rule sum.cong) (auto simp: y_def)
      also have "y q * G q q = - (\<Sum>i\<in>{q<..m}. x i * G i q)"
        using gq by (simp add: y_def t_def)
      finally show ?thesis using True by simp
    next
      case False
      with p q have qp: "q < p" "m - k \<le> p"
        by (simp_all add: q_def)
      have "(\<Sum>i\<le>m. y i * G i p) = (\<Sum>i\<le>m. x i * G i p)"
        by (rule sum.cong) (auto simp: y_def upper [OF qp(1)])
      with xo qp p show ?thesis by simp
    qed
    with ym yz show ?case by (intro exI [of _ y]) (simp add: q_def)
  qed
  from this [of m] show ?thesis by simp
qed

lemma quadratic_form_of_squares:
  fixes G :: "nat \<Rightarrow> nat \<Rightarrow> real" and x :: "nat \<Rightarrow> real"
  shows "(\<Sum>i\<le>m. \<Sum>j\<le>m. x i * (\<Sum>p<k. G i p * G j p) * x j)
       = (\<Sum>p<k. (\<Sum>i\<le>m. x i * G i p)\<^sup>2)"
proof -
  have "(\<Sum>p<k. (\<Sum>i\<le>m. x i * G i p)\<^sup>2)
      = (\<Sum>p<k. \<Sum>i\<le>m. \<Sum>j\<le>m. x i * (G i p * G j p) * x j)"
    by (simp add: power2_eq_square sum_product mult_ac)
  also have "\<dots> = (\<Sum>i\<le>m. \<Sum>p<k. \<Sum>j\<le>m. x i * (G i p * G j p) * x j)"
    by (rule sum.swap)
  also have "\<dots> = (\<Sum>i\<le>m. \<Sum>j\<le>m. \<Sum>p<k. x i * (G i p * G j p) * x j)"
    by (rule sum.cong [OF refl]) (rule sum.swap)
  also have "\<dots> = (\<Sum>i\<le>m. \<Sum>j\<le>m. x i * (\<Sum>p<k. G i p * G j p) * x j)"
    by (simp add: sum_distrib_left sum_distrib_right)
  finally show ?thesis by simp
qed

lemma quadratic_form_corner:
  fixes x :: "nat \<Rightarrow> real"
  shows "(\<Sum>i\<le>m. \<Sum>j\<le>m. x i * (if i = m \<and> j = m then d else 0) * x j) = x m * d * x m"
proof -
  have "(\<Sum>j\<le>m. x i * (if i = m \<and> j = m then d else 0) * x j)
      = (if i = m then x m * d * x m else 0)" for i
  proof (cases "i = m")
    case True
    have "(\<Sum>j\<le>m. x m * (if j = m then d else 0) * x j)
        = (\<Sum>j\<le>m. if j = m then x m * d * x m else 0)"
      by (rule sum.cong) auto
    then show ?thesis using True by simp
  next
    case False
    then show ?thesis by simp
  qed
  then show ?thesis by simp
qed

lemma pivot_positive_step:
  assumes sym: "symmetric_matrix n M" and pd: "positive_definite n M"
    and m: "m < n" and piv: "\<forall>j<m. 0 < pivot M j"
  shows "0 < pivot M m"
proof -
  let ?G = "cholesky_entry M"
  have rep: "M i j = (\<Sum>p<m. ?G i p * ?G j p) + (if i = m \<and> j = m then pivot M m else 0)"
    if ij: "i \<le> m" "j \<le> m" for i j
  proof -
    consider "i = m" "j = m" | "j < m" "j \<le> i" | "i < m" "i < j"
      using ij by linarith
    then show ?thesis
    proof cases
      case 1
      then show ?thesis by (simp add: pivot_def power2_eq_square)
    next
      case 2
      from cholesky_product [OF piv 2(1) 2(2) 2(1)] 2 show ?thesis by auto
    next
      case 3
      then have "i \<le> j" by simp
      from cholesky_product [OF piv 3(1) this 3(1)]
      have "(\<Sum>p<m. ?G i p * ?G j p) = M j i" by (simp add: mult.commute)
      moreover from sym ij m have "M j i = M i j"
        by (simp add: symmetric_matrix_def)
      ultimately show ?thesis using 3 by auto
    qed
  qed
  from piv have "\<forall>p<m. ?G p p \<noteq> 0"
    using cholesky_diag_pos [of M] by fastforce
  from orthogonal_vector [of ?G m, OF cholesky_above this]
  obtain x where xm: "x m = 1" and xz: "\<forall>i>m. x i = 0"
    and xo: "\<forall>p<m. (\<Sum>i\<le>m. x i * ?G i p) = 0"
    by blast
  from m have sub: "{..m} \<subseteq> {..<n}" by auto
  have "(\<Sum>i<n. \<Sum>j<n. x i * M i j * x j) = (\<Sum>i\<le>m. \<Sum>j<n. x i * M i j * x j)"
    by (rule sum.mono_neutral_right) (use sub xz in auto)
  also have "\<dots> = (\<Sum>i\<le>m. \<Sum>j\<le>m. x i * M i j * x j)"
    by (rule sum.cong [OF refl], rule sum.mono_neutral_right) (use sub xz in auto)
  also have "\<dots> = (\<Sum>i\<le>m. \<Sum>j\<le>m.
      x i * (\<Sum>p<m. ?G i p * ?G j p) * x j
      + x i * (if i = m \<and> j = m then pivot M m else 0) * x j)"
    by (intro sum.cong refl) (simp add: rep algebra_simps)
  also have "\<dots> = (\<Sum>p<m. (\<Sum>i\<le>m. x i * ?G i p)\<^sup>2) + x m * pivot M m * x m"
    by (simp only: sum.distrib quadratic_form_of_squares quadratic_form_corner)
  also have "\<dots> = pivot M m"
    using xo xm by simp
  finally have "(\<Sum>i<n. \<Sum>j<n. x i * M i j * x j) = pivot M m" .
  moreover from m xm have "\<exists>i<n. x i \<noteq> 0"
    by (intro exI [of _ m]) simp
  with pd have "0 < (\<Sum>i<n. \<Sum>j<n. x i * M i j * x j)"
    by (simp add: positive_definite_def)
  ultimately show ?thesis by simp
qed

lemma pivot_positive:
  assumes "symmetric_matrix n M" and "positive_definite n M"
  shows "m < n \<Longrightarrow> 0 < pivot M m"
proof (induction m rule: less_induct)
  case (less m)
  then have "\<forall>j<m. 0 < pivot M j" by simp
  from pivot_positive_step [OF assms less.prems this] show ?case .
qed

text \<open>The factor times its transpose is the matrix.\<close>

lemma cholesky_factorisation:
  assumes sym: "symmetric_matrix n M" and piv: "\<forall>j<n. 0 < pivot M j"
    and i: "i < n" and j: "j < n"
  shows "(\<Sum>p<n. cholesky_entry M i p * cholesky_entry M j p) = M i j"
proof (cases "j \<le> i")
  case True
  from cholesky_product [OF piv j True j] show ?thesis .
next
  case False
  then have "i \<le> j" by simp
  from cholesky_product [OF piv i this i]
  have "(\<Sum>p<n. cholesky_entry M i p * cholesky_entry M j p) = M j i"
    by (simp add: mult.commute)
  with sym i j show ?thesis by (simp add: symmetric_matrix_def)
qed

subsection \<open>The kernel computes the recurrence\<close>

lemma offset_inj:
  assumes "a < dm" "i < dm" "a + b * dm = i + j * dm"
  shows "a = i \<and> b = (j::nat)"
proof -
  from assms(3) have "(a + b * dm) mod dm = (i + j * dm) mod dm" by simp
  with assms(1,2) have "a = i" by simp
  with assms show ?thesis by simp
qed

lemma offset_bound:
  assumes "a < dm" "b \<le> a"
  shows "a + b * dm < dm * (dm::nat)"
proof -
  from assms have "b * dm \<le> (dm - 1) * dm" by (intro mult_right_mono) simp_all
  with assms(1) have "a + b * dm < dm + (dm - 1) * dm" by (rule add_less_le_mono)
  also have "dm + (dm - 1) * dm = dm * dm"
    using assms(1) by (cases dm) simp_all
  finally show ?thesis .
qed

lemma write_misses_A:
  assumes "same_or_disjoint dm L A" "a < dm" "b \<le> a" "i < dm" "j \<le> i" "(a, b) \<noteq> (i, j)"
  shows "A + (a + b * dm) \<noteq> L + (i + j * dm)"
proof
  assume eq: "A + (a + b * dm) = L + (i + j * dm)"
  from offset_bound [OF assms(2,3)] offset_bound [OF assms(4,5)] eq assms(1)
  have "L = A" by (auto simp: same_or_disjoint_def)
  with eq have "a + b * dm = i + j * dm" by simp
  from offset_inj [OF assms(2,4) this] assms(6) show False by simp
qed

lemma write_misses_L:
  assumes "a < (dm::nat)" "i < dm" "(a, b) \<noteq> (i, j)"
  shows "L + (a + b * dm) \<noteq> L + (i + j * dm)"
  using offset_inj [of a dm i b j] assms by auto

lemma chol_sum_eq:
  assumes "0 < dm"
  shows "p \<le> j \<Longrightarrow> chol_sum dm L h i j (p * dm) s
           = s + (\<Sum>q\<in>{p..<j}. h (L + (i + q * dm)) * h (L + (j + q * dm)))"
proof (induction "j - p" arbitrary: p s)
  case 0
  then have "p = j" by simp
  then show ?case by (subst chol_sum.simps) simp
next
  case (Suc k)
  then have lt: "p < j" by simp
  with assms have "p * dm < j * dm" by simp
  then have "chol_sum dm L h i j (p * dm) s
      = chol_sum dm L h i j (Suc p * dm) (s + h (L + (i + p * dm)) * h (L + (j + p * dm)))"
    by (subst chol_sum.simps) (simp add: add.commute)
  also from Suc lt have "\<dots> = s + h (L + (i + p * dm)) * h (L + (j + p * dm))
      + (\<Sum>q\<in>{Suc p..<j}. h (L + (i + q * dm)) * h (L + (j + q * dm)))"
    by (intro Suc.hyps) simp_all
  also from lt have "\<dots> = s + (\<Sum>q\<in>{p..<j}. h (L + (i + q * dm)) * h (L + (j + q * dm)))"
    by (simp add: sum.atLeast_Suc_lessThan)
  finally show ?case .
qed

lemma chol_sum_from_zero:
  "0 < dm \<Longrightarrow> chol_sum dm L h i j 0 0
     = (\<Sum>q<j. h (L + (i + q * dm)) * h (L + (j + q * dm)))"
  using chol_sum_eq [of dm 0 j L h i 0] by (simp add: atLeast0LessThan)

lemma chol_inv_written:
  "chol_inv dm L A M h0 h i j \<Longrightarrow> a < dm \<Longrightarrow> b \<le> a \<Longrightarrow> a < i \<or> (a = i \<and> b < j) \<Longrightarrow>
   h (L + (a + b * dm)) = cholesky_entry M a b"
  unfolding chol_inv_def by blast

lemma chol_inv_pending:
  "chol_inv dm L A M h0 h i j \<Longrightarrow> a < dm \<Longrightarrow> b \<le> a \<Longrightarrow> \<not> (a < i \<or> (a = i \<and> b < j)) \<Longrightarrow>
   h (A + (a + b * dm)) = h0 (A + (a + b * dm))"
  unfolding chol_inv_def by blast

lemma chol_inv_write:
  assumes inv: "chol_inv dm L A M h0 h i j" and al: "same_or_disjoint dm L A"
    and i: "i < dm" and j: "j \<le> i"
  shows "chol_inv dm L A M h0 (h(L + (i + j * dm) := cholesky_entry M i j)) i (Suc j)"
  unfolding chol_inv_def
proof (intro conjI allI impI)
  fix a b
  assume a: "a < dm" and b: "b \<le> a" and w: "a < i \<or> a = i \<and> b < Suc j"
  show "(h(L + (i + j * dm) := cholesky_entry M i j)) (L + (a + b * dm)) = cholesky_entry M a b"
  proof (cases "(a, b) = (i, j)")
    case True
    then show ?thesis by simp
  next
    case False
    with w have "a < i \<or> (a = i \<and> b < j)" by auto
    from chol_inv_written [OF inv a b this]
    have "h (L + (a + b * dm)) = cholesky_entry M a b" .
    with write_misses_L [OF a i False] show ?thesis by simp
  qed
next
  fix a b
  assume a: "a < dm" and b: "b \<le> a" and w: "\<not> (a < i \<or> a = i \<and> b < Suc j)"
  then have ne: "(a, b) \<noteq> (i, j)" and "\<not> (a < i \<or> (a = i \<and> b < j))" by auto
  from chol_inv_pending [OF inv a b this(2)]
  have "h (A + (a + b * dm)) = h0 (A + (a + b * dm))" .
  with write_misses_A [OF al a b i j ne]
  show "(h(L + (i + j * dm) := cholesky_entry M i j)) (A + (a + b * dm)) = h0 (A + (a + b * dm))"
    by simp
qed

lemma chol_inv_next_row:
  assumes inv: "chol_inv dm L A M h0 h i (Suc i)"
  shows "chol_inv dm L A M h0 h (Suc i) 0"
  unfolding chol_inv_def
proof (intro conjI allI impI)
  fix a b
  assume a: "a < dm" and b: "b \<le> a" and w: "a < Suc i \<or> a = Suc i \<and> b < 0"
  with b have "a < i \<or> (a = i \<and> b < Suc i)" by auto
  from chol_inv_written [OF inv a b this]
  show "h (L + (a + b * dm)) = cholesky_entry M a b" .
next
  fix a b
  assume a: "a < dm" and b: "b \<le> a" and w: "\<not> (a < Suc i \<or> a = Suc i \<and> b < 0)"
  then have "\<not> (a < i \<or> (a = i \<and> b < Suc i))" by auto
  from chol_inv_pending [OF inv a b this]
  show "h (A + (a + b * dm)) = h0 (A + (a + b * dm))" .
qed

text \<open>The value the kernel stores at position \<open>(i, j)\<close>, \<open>1 \<le> j \<le> i\<close>.\<close>

lemma chol_row_value:
  assumes al: "same_or_disjoint dm L A" and piv: "\<forall>a<dm. 0 < pivot M a"
    and M: "M = (\<lambda>i j. h0 (A + (i + j * dm)) * mul)"
    and i: "i < dm" and j: "j \<le> i" and inv: "chol_inv dm L A M h0 h i j"
  shows "(if i = j then fsqrt (h (A + (i + i * dm)) * mul - chol_sum dm L h i j 0 0)
          else case recip (h (L + (j + j * dm))) of
                 Inl e \<Rightarrow> Inl e
               | Inr r \<Rightarrow> Inr (r * (h (A + (i + j * dm)) * mul - chol_sum dm L h i j 0 0)))
         = Inr (cholesky_entry M i j)"
proof -
  let ?G = "cholesky_entry M"
  from i have dm: "0 < dm" by simp
  have row_i: "h (L + (i + q * dm)) = ?G i q" if "q < j" for q
    using chol_inv_written [OF inv i, of q] that j by simp
  have row_j: "h (L + (j + q * dm)) = ?G j q" if "q < j" for q
  proof -
    from i j have jd: "j < dm" by simp
    from that have qj: "q \<le> j" by simp
    from that j have "j < i \<or> (j = i \<and> q < j)" by auto
    from chol_inv_written [OF inv jd qj this] show ?thesis .
  qed
  have s: "chol_sum dm L h i j 0 0 = (\<Sum>q<j. ?G i q * ?G j q)"
    unfolding chol_sum_from_zero [OF dm]
    by (rule sum.cong) (simp_all add: row_i row_j)
  have pend: "h (A + (i + j * dm)) * mul = M i j"
    using chol_inv_pending [OF inv i j] by (simp add: M)
  show ?thesis
  proof (cases "i = j")
    case True
    from s True have "chol_sum dm L h i i 0 0 = (\<Sum>q<i. ?G i q * ?G i q)"
      by simp
    with pend True have "h (A + (i + i * dm)) * mul - chol_sum dm L h i j 0 0 = pivot M i"
      by (simp add: pivot_def power2_eq_square)
    moreover from piv i have "0 < pivot M i" by simp
    ultimately show ?thesis
      using True by (simp add: fsqrt_def cholesky_diag)
  next
    case False
    with j have lt: "j < i" by simp
    with i have "j < dm" by simp
    from chol_inv_written [OF inv this, of j] lt
    have d: "h (L + (j + j * dm)) = ?G j j" by simp
    from piv \<open>j < dm\<close> have "0 < ?G j j"
      by (simp add: cholesky_diag_pos)
    then show ?thesis
      using False by (simp add: recip_def d pend s cholesky_below [OF lt])
  qed
qed

lemma chol_row_refines:
  assumes al: "same_or_disjoint dm L A" and piv: "\<forall>a<dm. 0 < pivot M a"
    and M: "M = (\<lambda>i j. h0 (A + (i + j * dm)) * mul)"
    and i: "i < dm"
  shows "j \<le> Suc i \<Longrightarrow> chol_inv dm L A M h0 h i j \<Longrightarrow>
    \<exists>h'. chol_row dm L A mul i (i * dm) j (j * dm) h = Inr h' \<and>
         chol_inv dm L A M h0 h' i (Suc i)"
proof (induction "Suc i - j" arbitrary: j h)
  case 0
  then have "j = Suc i" by simp
  with 0 show ?case by (subst chol_row.simps) simp
next
  case (Suc k)
  then have j: "j \<le> i" by simp
  let ?h = "h(L + (i + j * dm) := cholesky_entry M i j)"
  from chol_row_value [OF al piv M i j Suc.prems(2)] j
  have "chol_row dm L A mul i (i * dm) j (j * dm) h
      = chol_row dm L A mul i (i * dm) (Suc j) (Suc j * dm) ?h"
    by (subst chol_row.simps) (simp add: Let_def add.commute)
  moreover from Suc.hyps(2) j have "k = Suc i - Suc j" "Suc j \<le> Suc i" by simp_all
  from Suc.hyps(1) [OF this chol_inv_write [OF Suc.prems(2) al i j]]
  have "\<exists>h'. chol_row dm L A mul i (i * dm) (Suc j) (Suc j * dm) ?h = Inr h' \<and>
         chol_inv dm L A M h0 h' i (Suc i)" .
  ultimately show ?case by simp
qed

text \<open>The value the kernel stores in the first column of row \<open>i\<close>.\<close>

lemma chol_rows_value:
  assumes piv: "\<forall>a<dm. 0 < pivot M a"
    and M: "M = (\<lambda>i j. h0 (A + (i + j * dm)) * mul)"
    and i: "i < dm" and inv: "chol_inv dm L A M h0 h i 0"
  shows "(if i = 0 then fsqrt (h (A + (i + i * dm)) * mul)
          else case recip (h (L + 0)) of
                 Inl e \<Rightarrow> Inl e
               | Inr r \<Rightarrow> Inr (r * (h (A + i) * mul)))
         = Inr (cholesky_entry M i 0)"
proof (cases "i = 0")
  case True
  from chol_inv_pending [OF inv i, of 0] True have "h (A + 0) * mul = M 0 0"
    by (simp add: M)
  moreover have "pivot M 0 = M 0 0" by (simp add: pivot_def)
  moreover from piv i True have "0 < pivot M 0" by simp
  ultimately show ?thesis
    using True by (simp add: fsqrt_def cholesky_diag)
next
  case False
  then have lt: "0 < i" by simp
  from i have "0 < dm" by simp
  from chol_inv_written [OF inv this, of 0] lt have d: "h L = cholesky_entry M 0 0"
    by simp
  from chol_inv_pending [OF inv i, of 0] have p: "h (A + i) * mul = M i 0"
    by (simp add: M)
  from piv \<open>0 < dm\<close> have "0 < cholesky_entry M 0 0"
    by (simp add: cholesky_diag_pos)
  then show ?thesis
    using False by (simp add: recip_def d p cholesky_below [OF lt])
qed

lemma chol_rows_refines:
  assumes al: "same_or_disjoint dm L A" and piv: "\<forall>a<dm. 0 < pivot M a"
    and M: "M = (\<lambda>i j. h0 (A + (i + j * dm)) * mul)"
  shows "i \<le> dm \<Longrightarrow> chol_inv dm L A M h0 h i 0 \<Longrightarrow>
    \<exists>h'. chol_rows dm L A mul i (i * dm) h = Inr h' \<and> chol_inv dm L A M h0 h' dm 0"
proof (induction "dm - i" arbitrary: i h)
  case 0
  then have "i = dm" by simp
  with 0 show ?case by (subst chol_rows.simps) simp
next
  case (Suc k)
  then have i: "i < dm" by simp
  let ?h = "h(L + (i + 0) := cholesky_entry M i 0)"
  have "chol_inv dm L A M h0 (h(L + (i + 0 * dm) := cholesky_entry M i 0)) i (Suc 0)"
    by (rule chol_inv_write [OF Suc.prems(2) al i]) simp
  then have inv1: "chol_inv dm L A M h0 ?h i (Suc 0)" by simp
  from chol_row_refines [OF al piv M i _ inv1]
  obtain h1 where row: "chol_row dm L A mul i (i * dm) (Suc 0) (Suc 0 * dm) ?h = Inr h1"
    and inv2: "chol_inv dm L A M h0 h1 i (Suc i)"
    by auto
  from Suc.hyps(2) i have "k = dm - Suc i" "Suc i \<le> dm" by simp_all
  from Suc.hyps(1) [OF this chol_inv_next_row [OF inv2]]
  obtain h' where rest: "chol_rows dm L A mul (Suc i) (Suc i * dm) h1 = Inr h'"
    and inv3: "chol_inv dm L A M h0 h' dm 0"
    by auto
  from chol_rows_value [OF piv M i Suc.prems(2)] i row rest
  have "chol_rows dm L A mul i (i * dm) h = Inr h'"
    by (subst chol_rows.simps) (simp add: add.commute)
  with inv3 show ?case by simp
qed

lemma chol_inv_initial: "chol_inv dm L A M h h 0 0"
  by (simp add: chol_inv_def)

text \<open>With positive pivots the kernel returns, and the lower triangle of \<open>L\<close> holds the
  Cholesky factor of the scaled input matrix.\<close>

lemma cholesky_refines:
  assumes "L \<noteq> 0" "A \<noteq> 0" "0 < dm" and al: "same_or_disjoint dm L A"
    and piv: "\<forall>a<dm. 0 < pivot (\<lambda>i j. h (A + (i + j * dm)) * mul) a"
  shows "\<exists>h'. matrix_cholesky_decomp_scale_f dm L A mul h = Inr h' \<and>
    (\<forall>i<dm. \<forall>j\<le>i. h' (L + (i + j * dm))
        = cholesky_entry (\<lambda>i j. h (A + (i + j * dm)) * mul) i j)"
proof -
  let ?M = "\<lambda>i j. h (A + (i + j * dm)) * mul"
  from chol_rows_refines [OF al piv refl, of 0 h] chol_inv_initial [of dm L A ?M h]
  obtain h' where r: "chol_rows dm L A mul 0 0 h = Inr h'" and inv: "chol_inv dm L A ?M h h' dm 0"
    by auto
  have "h' (L + (i + j * dm)) = cholesky_entry ?M i j" if "i < dm" "j \<le> i" for i j
    using chol_inv_written [OF inv that] that by simp
  with r assms(1-3) show ?thesis
    by (simp add: matrix_cholesky_decomp_scale_f_def)
qed

subsection \<open>The decomposition of a symmetric positive-definite matrix\<close>

lemma positive_definite_scale:
  assumes "positive_definite n M" "0 < k"
  shows "positive_definite n (\<lambda>i j. k * M i j)"
  unfolding positive_definite_def
proof (intro allI impI)
  fix x :: "nat \<Rightarrow> real"
  assume "\<exists>i<n. x i \<noteq> 0"
  with assms(1) have "0 < (\<Sum>i<n. \<Sum>j<n. x i * M i j * x j)"
    by (simp add: positive_definite_def)
  with assms(2) have "0 < k * (\<Sum>i<n. \<Sum>j<n. x i * M i j * x j)" by simp
  also have "k * (\<Sum>i<n. \<Sum>j<n. x i * M i j * x j) = (\<Sum>i<n. \<Sum>j<n. x i * (k * M i j) * x j)"
    by (simp add: sum_distrib_left mult_ac)
  finally show "0 < (\<Sum>i<n. \<Sum>j<n. x i * (k * M i j) * x j)" .
qed

lemma symmetric_matrix_scale:
  "symmetric_matrix n M \<Longrightarrow> symmetric_matrix n (\<lambda>i j. k * M i j)"
  by (simp add: symmetric_matrix_def)

text \<open>
  Claim C1. Let \<open>A\<close> hold a symmetric positive-definite \<open>dim \<times> dim\<close> matrix, \<open>k > 0\<close>, and
  let \<open>L\<close> be either \<open>A\<close> itself or an array that does not overlap it. Then
  \<open>matrix_cholesky_decomp_scale_f\<close> returns (no square root of a negative number, no
  division by zero), and in the memory it leaves the lower-triangular positions of \<open>L\<close>
  satisfy the recurrence: \<open>L[i,i] = sqrt (k * A[i,i] - \<Sum>p<i. L[i,p]\<^sup>2)\<close> and, for \<open>j < i\<close>,
  \<open>L[i,j] = (k * A[i,j] - \<Sum>p<j. L[i,p] * L[j,p]) / L[j,j]\<close>. The lower-triangular
  matrix stored in \<open>L\<close>, multiplied by its transpose, is \<open>k * A\<close>. Here \<open>A\<close> is the
  matrix held before the call, and all arithmetic is that of the reals. The bound on
  \<open>dim\<close> keeps the \<^verbatim>\<open>unsigned int\<close> offsets of the code from wrapping around.
\<close>

theorem C1_cholesky_decomposition:
  assumes "L \<noteq> 0" and "A \<noteq> 0" and "0 < dm" and "same_or_disjoint dm L A" and "0 < k"
    and "symmetric_matrix dm (matrix_at h A dm)"
    and "positive_definite dm (matrix_at h A dm)"
    and "dm * dm < 2 ^ 32"
  shows "\<exists>h'. matrix_cholesky_decomp_scale_f dm L A k h = Inr h' \<and>
    (\<forall>i<dm.
       matrix_at h' L dm i i
         = sqrt (k * matrix_at h A dm i i - (\<Sum>p<i. (matrix_at h' L dm i p)\<^sup>2)) \<and>
       (\<forall>j<i. matrix_at h' L dm i j
         = (k * matrix_at h A dm i j - (\<Sum>p<j. matrix_at h' L dm i p * matrix_at h' L dm j p))
           / matrix_at h' L dm j j)) \<and>
    (\<forall>i<dm. \<forall>j<dm.
       (\<Sum>p<dm. lower_part h' L dm i p * lower_part h' L dm j p) = k * matrix_at h A dm i j)"
proof -
  let ?M = "\<lambda>i j. k * matrix_at h A dm i j"
  let ?G = "cholesky_entry ?M"
  have M: "(\<lambda>i j. h (A + (i + j * dm)) * k) = ?M"
    by (simp add: matrix_at_def mult.commute)
  have sym: "symmetric_matrix dm ?M"
    by (rule symmetric_matrix_scale) fact
  have pd: "positive_definite dm ?M"
    by (rule positive_definite_scale) fact+
  have piv: "\<forall>a<dm. 0 < pivot ?M a"
    using pivot_positive [OF sym pd] by blast
  then have "\<forall>a<dm. 0 < pivot (\<lambda>i j. h (A + (i + j * dm)) * k) a"
    by (simp only: M)
  from cholesky_refines [OF assms(1-4) this]
  obtain h' where r: "matrix_cholesky_decomp_scale_f dm L A k h = Inr h'"
    and e: "\<forall>i<dm. \<forall>j\<le>i. h' (L + (i + j * dm)) = ?G i j"
    unfolding M by blast
  have ent: "matrix_at h' L dm i j = ?G i j" if "i < dm" "j \<le> i" for i j
    using e that by (simp add: matrix_at_def)
  have low: "lower_part h' L dm i p = ?G i p" if "i < dm" for i p
    using ent [OF that, of p] by (simp add: lower_part_def cholesky_above)
  have diag: "matrix_at h' L dm i i
      = sqrt (k * matrix_at h A dm i i - (\<Sum>p<i. (matrix_at h' L dm i p)\<^sup>2))" if i: "i < dm" for i
  proof -
    have "(\<Sum>p<i. (matrix_at h' L dm i p)\<^sup>2) = (\<Sum>p<i. (?G i p)\<^sup>2)"
      by (rule sum.cong) (simp_all add: ent [OF i])
    then show ?thesis
      by (simp add: ent [OF i] cholesky_diag pivot_def)
  qed
  have below: "matrix_at h' L dm i j
      = (k * matrix_at h A dm i j - (\<Sum>p<j. matrix_at h' L dm i p * matrix_at h' L dm j p))
        / matrix_at h' L dm j j" if i: "i < dm" and j: "j < i" for i j
  proof -
    from i j have jd: "j < dm" by simp
    have "(\<Sum>p<j. matrix_at h' L dm i p * matrix_at h' L dm j p) = (\<Sum>p<j. ?G i p * ?G j p)"
      using j by (intro sum.cong refl) (simp add: ent [OF i] ent [OF jd])
    with j show ?thesis
      by (simp add: ent [OF i] ent [OF jd] cholesky_below [OF j])
  qed
  have prod: "(\<Sum>p<dm. lower_part h' L dm i p * lower_part h' L dm j p) = k * matrix_at h A dm i j"
    if i: "i < dm" and j: "j < dm" for i j
    using cholesky_factorisation [OF sym piv i j]
    by (simp add: low [OF i] low [OF j])
  from r diag below prod show ?thesis by blast
qed

lemma small_matrix:
  "matrix_at small_mem 1 2 0 0 = 4" "matrix_at small_mem 1 2 1 0 = 2"
  "matrix_at small_mem 1 2 0 1 = 2" "matrix_at small_mem 1 2 1 1 = 5"
  "matrix_at small_mem (Suc 0) 2 0 0 = 4" "matrix_at small_mem (Suc 0) 2 (Suc 0) 0 = 2"
  "matrix_at small_mem (Suc 0) 2 0 (Suc 0) = 2" "matrix_at small_mem (Suc 0) 2 (Suc 0) (Suc 0) = 5"
  by (simp_all add: matrix_at_def small_mem_def)

lemma small_symmetric: "symmetric_matrix 2 (matrix_at small_mem 1 2)"
proof -
  have "matrix_at small_mem 1 2 i j = matrix_at small_mem 1 2 j i" if "i < 2" "j < 2" for i j
  proof -
    from that have "i = 0 \<or> i = 1" "j = 0 \<or> j = 1" by auto
    then show ?thesis
      by (elim disjE) (simp_all add: small_matrix)
  qed
  then show ?thesis by (simp add: symmetric_matrix_def)
qed

lemma small_positive_definite: "positive_definite 2 (matrix_at small_mem 1 2)"
  unfolding positive_definite_def
proof (intro allI impI)
  fix x :: "nat \<Rightarrow> real"
  assume nz: "\<exists>i<2. x i \<noteq> 0"
  have two: "{..<2::nat} = {0, 1}" by auto
  have q: "(\<Sum>i<2. \<Sum>j<2. x i * matrix_at small_mem 1 2 i j * x j)
      = (2 * x 0 + x 1)\<^sup>2 + 4 * (x 1)\<^sup>2"
    by (simp add: two small_matrix power2_eq_square algebra_simps)
  from nz have "x 0 \<noteq> 0 \<or> x 1 \<noteq> 0"
    by (auto simp: less_2_cases_iff)
  then have "0 < (2 * x 0 + x 1)\<^sup>2 + 4 * (x 1)\<^sup>2"
  proof (cases "x 1 = 0")
    case True
    assume "x 0 \<noteq> 0 \<or> x 1 \<noteq> 0"
    with True have "x 0 \<noteq> 0" by simp
    with True show ?thesis by simp
  next
    case False
    then have "0 < 4 * (x 1)\<^sup>2" by simp
    moreover have "0 \<le> (2 * x 0 + x 1)\<^sup>2" by simp
    ultimately show ?thesis by linarith
  qed
  with q show "0 < (\<Sum>i<2. \<Sum>j<2. x i * matrix_at small_mem 1 2 i j * x j)" by simp
qed

theorem C1_cholesky_decomposition_witness:
  "\<exists>h'. matrix_cholesky_decomp_scale_f 2 5 1 4 small_mem = Inr h' \<and>
     matrix_at h' 5 2 0 0 = 4 \<and> matrix_at h' 5 2 1 0 = 2 \<and> matrix_at h' 5 2 1 1 = 4 \<and>
     (\<Sum>p<2. lower_part h' 5 2 1 p * lower_part h' 5 2 1 p) = 4 * matrix_at small_mem 1 2 1 1"
proof -
  have a: "(5::nat) \<noteq> 0" "(1::nat) \<noteq> 0" "(0::nat) < 2" "(0::real) < 4" by simp_all
  have d: "same_or_disjoint 2 5 1" by (simp add: same_or_disjoint_def)
  have w: "(2::nat) * 2 < 2 ^ 32" by simp
  from C1_cholesky_decomposition [OF a(1-3) d a(4) small_symmetric small_positive_definite w]
  obtain h' where r: "matrix_cholesky_decomp_scale_f 2 5 1 4 small_mem = Inr h'"
    and rec: "\<forall>i<2. matrix_at h' 5 2 i i
         = sqrt (4 * matrix_at small_mem 1 2 i i - (\<Sum>p<i. (matrix_at h' 5 2 i p)\<^sup>2)) \<and>
       (\<forall>j<i. matrix_at h' 5 2 i j
         = (4 * matrix_at small_mem 1 2 i j - (\<Sum>p<j. matrix_at h' 5 2 i p * matrix_at h' 5 2 j p))
           / matrix_at h' 5 2 j j)"
    and prod: "\<forall>i<2. \<forall>j<2.
       (\<Sum>p<2. lower_part h' 5 2 i p * lower_part h' 5 2 j p) = 4 * matrix_at small_mem 1 2 i j"
    by blast
  have s16: "sqrt 16 = (4::real)"
    using real_sqrt_abs [of "4::real"] by simp
  from rec [rule_format, of 0] have e00: "matrix_at h' 5 2 0 0 = 4"
    by (simp add: small_matrix s16)
  from rec [THEN spec, of 1] have "matrix_at h' 5 2 1 0
      = (4 * matrix_at small_mem 1 2 1 0 - (\<Sum>p<0. matrix_at h' 5 2 1 p * matrix_at h' 5 2 0 p))
           / matrix_at h' 5 2 0 0"
    by simp
  then have e10: "matrix_at h' 5 2 1 0 = 2" by (simp add: small_matrix e00)
  then have e10': "matrix_at h' 5 2 (Suc 0) 0 = 2" by simp
  from rec [THEN spec, of 1] have "matrix_at h' 5 2 1 1
         = sqrt (4 * matrix_at small_mem 1 2 1 1 - (\<Sum>p<1. (matrix_at h' 5 2 1 p)\<^sup>2))"
    by simp
  then have e11: "matrix_at h' 5 2 1 1 = 4"
    by (simp add: small_matrix e10' s16)
  from prod [rule_format, of 1 1] r e00 e10 e11 show ?thesis by simp
qed

subsection \<open>The decomposition of the test matrix\<close>

lemma sum_below:
  fixes f :: "nat \<Rightarrow> real"
  shows "(\<Sum>p<Suc 0. f p) = f 0" "(\<Sum>p<2. f p) = f 0 + f (Suc 0)"
    "(\<Sum>p<3. f p) = f 0 + f (Suc 0) + f 2"
  by (simp_all add: numeral_2_eq_2 numeral_3_eq_3)

lemma div_sqrt_mult: "0 < d \<Longrightarrow> (a / sqrt d) * (b / sqrt d) = a * b / d"
  by simp

lemma div_sqrt_square: "0 < d \<Longrightarrow> (a / sqrt d)\<^sup>2 = a\<^sup>2 / d"
  by (simp add: power_divide)

lemma near_div_sqrt:
  assumes d: "0 < d" and c: "0 \<le> c" and t: "0 \<le> t" and lo: "0 \<le> e - t"
    and l: "(e - t)\<^sup>2 * d \<le> c\<^sup>2" and u: "c\<^sup>2 \<le> (e + t)\<^sup>2 * d"
  shows "\<bar>c / sqrt d - e\<bar> \<le> t"
proof -
  from d have sd: "0 < sqrt d" by simp
  from d have sq: "(sqrt d)\<^sup>2 = d" by simp
  from lo t have hi: "0 \<le> e + t" by linarith
  have "((e - t) * sqrt d)\<^sup>2 \<le> c\<^sup>2"
    using l by (simp add: power_mult_distrib sq)
  then have "(e - t) * sqrt d \<le> c"
    using c by (rule power2_le_imp_le)
  then have lower: "e - t \<le> c / sqrt d"
    using sd by (simp add: pos_le_divide_eq)
  have "c\<^sup>2 \<le> ((e + t) * sqrt d)\<^sup>2"
    using u by (simp add: power_mult_distrib sq)
  moreover from hi sd have "0 \<le> (e + t) * sqrt d" by simp
  ultimately have "c \<le> (e + t) * sqrt d"
    by (rule power2_le_imp_le)
  then have upper: "c / sqrt d \<le> e + t"
    using sd by (simp add: pos_divide_le_eq)
  from lower upper show ?thesis by (simp add: abs_le_iff)
qed

lemma near_sqrt:
  assumes d: "0 < d" and t: "0 \<le> t" and lo: "0 \<le> e - t"
    and l: "(e - t)\<^sup>2 \<le> d" and u: "d \<le> (e + t)\<^sup>2"
  shows "\<bar>sqrt d - e\<bar> \<le> t"
proof -
  from lo t have hi: "0 \<le> e + t" by linarith
  from l have "e - t \<le> sqrt d" by (rule real_le_rsqrt)
  moreover from hi u have "sqrt d \<le> e + t" by (intro real_le_lsqrt) simp_all
  ultimately show ?thesis by (simp add: abs_le_iff)
qed

text \<open>The factor of a matrix whose lower triangle is that of \<open>m1\<close>, in closed form.\<close>

lemma test_factor:
  assumes "M 0 0 = 18" "M (Suc 0) 0 = 22" "M 2 0 = 54" "M 3 0 = 42"
    "M (Suc 0) (Suc 0) = 70" "M 2 (Suc 0) = 86" "M 3 (Suc 0) = 62"
    "M 2 2 = 174" "M 3 2 = 134" "M 3 3 = 106"
  shows "pivot M 0 = 18" "pivot M (Suc 0) = 388 / 9" "pivot M 2 = 264 / 97" "pivot M 3 = 64 / 33"
    "cholesky_entry M 0 0 = sqrt 18"
    "cholesky_entry M (Suc 0) 0 = 22 / sqrt 18"
    "cholesky_entry M 2 0 = 54 / sqrt 18"
    "cholesky_entry M 3 0 = 42 / sqrt 18"
    "cholesky_entry M (Suc 0) (Suc 0) = sqrt (388 / 9)"
    "cholesky_entry M 2 (Suc 0) = 20 / sqrt (388 / 9)"
    "cholesky_entry M 3 (Suc 0) = (32 / 3) / sqrt (388 / 9)"
    "cholesky_entry M 2 2 = sqrt (264 / 97)"
    "cholesky_entry M 3 2 = (296 / 97) / sqrt (264 / 97)"
    "cholesky_entry M 3 3 = sqrt (64 / 33)"
proof -
  let ?G = "cholesky_entry M"
  show p0: "pivot M 0 = 18"
    by (simp add: pivot_def assms)
  then show g00: "?G 0 0 = sqrt 18"
    by (simp only: cholesky_diag)
  have b0: "?G i 0 = M i 0 / sqrt 18" if "0 < i" for i
    using cholesky_below [OF that, of M] by (simp add: g00)
  show g10: "?G (Suc 0) 0 = 22 / sqrt 18"
    using b0 [of "Suc 0"] by (simp add: assms)
  show g20: "?G 2 0 = 54 / sqrt 18"
    using b0 [of 2] by (simp add: assms)
  show g30: "?G 3 0 = 42 / sqrt 18"
    using b0 [of 3] by (simp add: assms)
  have "pivot M (Suc 0) = 70 - (22 / sqrt 18)\<^sup>2"
    by (simp only: pivot_def sum_below g10 assms)
  also have "(22 / sqrt 18)\<^sup>2 = (242 / 9::real)"
    by (subst div_sqrt_square) simp_all
  finally show p1: "pivot M (Suc 0) = 388 / 9"
    by simp
  then show g11: "?G (Suc 0) (Suc 0) = sqrt (388 / 9)"
    by (simp only: cholesky_diag)
  have b1: "?G i (Suc 0) = (M i (Suc 0) - ?G i 0 * (22 / sqrt 18)) / sqrt (388 / 9)"
    if "Suc 0 < i" for i
    using cholesky_below [OF that, of M] by (simp only: sum_below g10 g11)
  have "?G 2 (Suc 0) = (86 - (54 / sqrt 18) * (22 / sqrt 18)) / sqrt (388 / 9)"
    using b1 [of 2] by (simp only: g20 assms)
  also have "(54 / sqrt 18) * (22 / sqrt 18) = (66::real)"
    by (subst div_sqrt_mult) simp_all
  finally show g21: "?G 2 (Suc 0) = 20 / sqrt (388 / 9)"
    by simp
  have "?G 3 (Suc 0) = (62 - (42 / sqrt 18) * (22 / sqrt 18)) / sqrt (388 / 9)"
    using b1 [of 3] by (simp only: g30 assms)
  also have "(42 / sqrt 18) * (22 / sqrt 18) = (154 / 3::real)"
    by (subst div_sqrt_mult) simp_all
  finally show g31: "?G 3 (Suc 0) = (32 / 3) / sqrt (388 / 9)"
    by simp
  have "pivot M 2 = 174 - ((54 / sqrt 18)\<^sup>2 + (20 / sqrt (388 / 9))\<^sup>2)"
    by (simp only: pivot_def sum_below g20 g21 assms)
  also have "(54 / sqrt 18)\<^sup>2 = (162::real)"
    by (subst div_sqrt_square) simp_all
  also have "(20 / sqrt (388 / 9))\<^sup>2 = (900 / 97::real)"
    by (subst div_sqrt_square) simp_all
  finally show p2: "pivot M 2 = 264 / 97"
    by simp
  then show g22: "?G 2 2 = sqrt (264 / 97)"
    by (simp only: cholesky_diag)
  have "?G 3 2 = (134 - ((42 / sqrt 18) * (54 / sqrt 18)
        + ((32 / 3) / sqrt (388 / 9)) * (20 / sqrt (388 / 9)))) / sqrt (264 / 97)"
    using cholesky_below [of 2 3 M] by (simp only: sum_below g30 g20 g31 g21 g22 assms)
  also have "(42 / sqrt 18) * (54 / sqrt 18) = (126::real)"
    by (subst div_sqrt_mult) simp_all
  also have "((32 / 3) / sqrt (388 / 9)) * (20 / sqrt (388 / 9)) = (480 / 97::real)"
    by (subst div_sqrt_mult) simp_all
  finally show g32: "?G 3 2 = (296 / 97) / sqrt (264 / 97)"
    by simp
  have "pivot M 3 = 106 - ((42 / sqrt 18)\<^sup>2 + ((32 / 3) / sqrt (388 / 9))\<^sup>2
        + ((296 / 97) / sqrt (264 / 97))\<^sup>2)"
    by (simp only: pivot_def sum_below g30 g31 g32 assms)
  also have "(42 / sqrt 18)\<^sup>2 = (98::real)"
    by (subst div_sqrt_square) simp_all
  also have "((32 / 3) / sqrt (388 / 9))\<^sup>2 = (256 / 97::real)"
    by (subst div_sqrt_square) (simp_all add: power_divide)
  also have "((296 / 97) / sqrt (264 / 97))\<^sup>2 = (10952 / 3201::real)"
    by (subst div_sqrt_square) (simp_all add: power_divide)
  finally show p3: "pivot M 3 = 64 / 33"
    by simp
  then show "?G 3 3 = sqrt (64 / 33)"
    by (simp only: cholesky_diag)
qed

lemma below4: "(a::nat) < 4 \<Longrightarrow> a = 0 \<or> a = Suc 0 \<or> a = 2 \<or> a = 3"
  by linarith

text \<open>
  Claim C6. For the \<open>4 \<times> 4\<close> matrix \<open>m1\<close> of the test and scale 1, whether the kernel
  works in place (as the test calls it) or writes to a separate array, it returns,
  and every lower-triangular entry it leaves, at offset \<open>i + 4 * j\<close>, is within
  \<open>10\<^sup>-\<^sup>5\<close> of the entry of \<open>expected\<close> at the same offset. The arithmetic is that of
  the reals: the entries are \<open>sqrt 18\<close>, \<open>22 / sqrt 18\<close>, ..., \<open>sqrt (64 / 33)\<close>.
\<close>

theorem C6_cholesky_test_matrix:
  assumes "L \<noteq> 0" and "A \<noteq> 0" and "same_or_disjoint 4 L A"
    and "\<forall>k<16. h (A + k) = m1 ! k"
  shows "\<exists>h'. matrix_cholesky_decomp_scale_f 4 L A 1 h = Inr h' \<and>
    (\<forall>k\<in>{0, 1, 2, 3, 5, 6, 7, 10, 11, 15}. \<bar>h' (L + k) - expected ! k\<bar> \<le> 1 / 100000)"
proof -
  define M where "M = (\<lambda>i j. h (A + (i + j * 4)) * 1)"
  let ?G = "cholesky_entry M"
  have cell: "h (A + k) = m1 ! k" if "k < 16" for k
    using assms(4) that by blast
  have v: "M 0 0 = 18" "M (Suc 0) 0 = 22" "M 2 0 = 54" "M 3 0 = 42"
    "M (Suc 0) (Suc 0) = 70" "M 2 (Suc 0) = 86" "M 3 (Suc 0) = 62"
    "M 2 2 = 174" "M 3 2 = 134" "M 3 3 = 106"
    using cell [of 0] cell [of 1] cell [of 2] cell [of 3] cell [of 5] cell [of 6] cell [of 7]
      cell [of 10] cell [of 11] cell [of 15]
    by (simp_all add: m1_def M_def add.commute)
  note f = test_factor [of M, OF v]
  have piv: "\<forall>a<4. 0 < pivot M a"
  proof (intro allI impI)
    fix a :: nat
    assume "a < 4"
    from below4 [OF this] show "0 < pivot M a"
      by (elim disjE) (simp_all add: f)
  qed
  have four: "(0::nat) < 4" by simp
  from cholesky_refines [OF assms(1,2) four assms(3) piv [unfolded M_def]]
  obtain h' where r: "matrix_cholesky_decomp_scale_f 4 L A 1 h = Inr h'"
    and e: "\<forall>i<4. \<forall>j\<le>i. h' (L + (i + j * 4)) = ?G i j"
    unfolding M_def by blast
  have ent: "h' (L + (i + j * 4)) = ?G i j" if "i < 4" "j \<le> i" for i j
    using e that by blast
  have e0: "h' (L + 0) = sqrt 18"
    using ent [of 0 0] by (simp only: f) simp
  have e1: "h' (L + 1) = 22 / sqrt 18"
    using ent [of "Suc 0" 0] by (simp only: f) simp
  have e2: "h' (L + 2) = 54 / sqrt 18"
    using ent [of 2 0] by (simp only: f) simp
  have e3: "h' (L + 3) = 42 / sqrt 18"
    using ent [of 3 0] by (simp only: f) simp
  have e5: "h' (L + 5) = sqrt (388 / 9)"
    using ent [of "Suc 0" "Suc 0"] by (simp only: f) simp
  have e6: "h' (L + 6) = 20 / sqrt (388 / 9)"
    using ent [of 2 "Suc 0"] by (simp only: f) simp
  have e7: "h' (L + 7) = (32 / 3) / sqrt (388 / 9)"
    using ent [of 3 "Suc 0"] by (simp only: f) simp
  have e10: "h' (L + 10) = sqrt (264 / 97)"
    using ent [of 2 2] by (simp only: f) simp
  have e11: "h' (L + 11) = (296 / 97) / sqrt (264 / 97)"
    using ent [of 3 2] by (simp only: f) simp
  have e15: "h' (L + 15) = sqrt (64 / 33)"
    using ent [of 3 3] by (simp only: f) simp
  have x: "expected ! 0 = 4.24264" "expected ! 1 = 5.18545" "expected ! 2 = 12.72792"
    "expected ! 3 = 9.8994951" "expected ! 5 = 6.5659051" "expected ! 6 = 3.0460384"
    "expected ! 7 = 1.6245539" "expected ! 10 = 1.6497422" "expected ! 11 = 1.8497111"
    "expected ! 15 = 1.3926213"
    by (simp_all add: expected_def)
  have n0: "\<bar>h' (L + 0) - expected ! 0\<bar> \<le> 1 / 100000"
    unfolding e0 x by (rule near_sqrt) (simp_all add: power2_eq_square)
  have n1: "\<bar>h' (L + 1) - expected ! 1\<bar> \<le> 1 / 100000"
    unfolding e1 x by (rule near_div_sqrt) (simp_all add: power2_eq_square)
  have n2: "\<bar>h' (L + 2) - expected ! 2\<bar> \<le> 1 / 100000"
    unfolding e2 x by (rule near_div_sqrt) (simp_all add: power2_eq_square)
  have n3: "\<bar>h' (L + 3) - expected ! 3\<bar> \<le> 1 / 100000"
    unfolding e3 x by (rule near_div_sqrt) (simp_all add: power2_eq_square)
  have n5: "\<bar>h' (L + 5) - expected ! 5\<bar> \<le> 1 / 100000"
    unfolding e5 x by (rule near_sqrt) (simp_all add: power2_eq_square)
  have n6: "\<bar>h' (L + 6) - expected ! 6\<bar> \<le> 1 / 100000"
    unfolding e6 x by (rule near_div_sqrt) (simp_all add: power2_eq_square)
  have n7: "\<bar>h' (L + 7) - expected ! 7\<bar> \<le> 1 / 100000"
    unfolding e7 x by (rule near_div_sqrt) (simp_all add: power2_eq_square)
  have n10: "\<bar>h' (L + 10) - expected ! 10\<bar> \<le> 1 / 100000"
    unfolding e10 x by (rule near_sqrt) (simp_all add: power2_eq_square)
  have n11: "\<bar>h' (L + 11) - expected ! 11\<bar> \<le> 1 / 100000"
    unfolding e11 x by (rule near_div_sqrt) (simp_all add: power2_eq_square)
  have n15: "\<bar>h' (L + 15) - expected ! 15\<bar> \<le> 1 / 100000"
    unfolding e15 x by (rule near_sqrt) (simp_all add: power2_eq_square)
  from n0 n1 n2 n3 n5 n6 n7 n10 n11 n15
  have "\<forall>k\<in>{0, 1, 2, 3, 5, 6, 7, 10, 11, 15}. \<bar>h' (L + k) - expected ! k\<bar> \<le> 1 / 100000"
    by (simp only: ball_simps insert_iff empty_iff)
  with r show ?thesis by blast
qed

theorem C6_cholesky_test_matrix_witness:
  "\<exists>h'. matrix_cholesky_decomp_scale_f 4 1 1 1 test_mem = Inr h' \<and>
     \<bar>h' (1 + 0) - expected ! 0\<bar> \<le> 1 / 100000 \<and>
     \<bar>h' (1 + 6) - expected ! 6\<bar> \<le> 1 / 100000 \<and>
     \<bar>h' (1 + 15) - expected ! 15\<bar> \<le> 1 / 100000"
proof -
  have n: "(1::nat) \<noteq> 0" by simp
  have d: "same_or_disjoint 4 1 1" by (simp add: same_or_disjoint_def)
  have m: "\<forall>k<16. test_mem (1 + k) = m1 ! k" by (simp add: test_mem_def)
  from C6_cholesky_test_matrix [OF n n d m]
  obtain h' where r: "matrix_cholesky_decomp_scale_f 4 1 1 1 test_mem = Inr h'"
    and b: "\<forall>k\<in>{0, 1, 2, 3, 5, 6, 7, 10, 11, 15}. \<bar>h' (1 + k) - expected ! k\<bar> \<le> 1 / 100000"
    by blast
  have "\<bar>h' (1 + 0) - expected ! 0\<bar> \<le> 1 / 100000"
    by (rule b [rule_format]) simp
  moreover have "\<bar>h' (1 + 6) - expected ! 6\<bar> \<le> 1 / 100000"
    by (rule b [rule_format]) simp
  moreover have "\<bar>h' (1 + 15) - expected ! 15\<bar> \<le> 1 / 100000"
    by (rule b [rule_format]) simp
  ultimately show ?thesis using r by blast
qed

end
